theory Spec2Isabelle
  imports Complex_Main
begin

section \<open>Errors\<close>

text \<open>
  Every \<^verbatim>\<open>throw\<close> of the JavaScript sources, and the one run-time exception the
  ambiguity detector can raise (reading a property of \<^verbatim>\<open>undefined\<close>), is a value of
  this type. \<open>RuleErr msg\<close> is \<^verbatim>\<open>Symbol.prototype.ruleErr(msg, RHS)\<close>: it logs \<open>msg\<close>
  and throws \<^verbatim>\<open>'ill-formed rule'\<close>, so the logged message distinguishes the causes.
  \<open>IllFormedRule\<close> and \<open>DuplicateRule\<close> are the two failures the spec gives the rule
  store's \<^verbatim>\<open>addTerminalRule\<close>, for the one function whose source is missing.
\<close>

datatype error =
    IllFormedSymbol
  | DuplicateSymbol
  | RuleMissingRHS
  | IllFormedTerminalRule
  | IllFormedNonterminalRule
  | RuleErr string
  | TypeError
  | IllFormedVerb
  | IllFormedVerbSet
  | IllFormedRule
  | DuplicateRule

section \<open>JavaScript numbers\<close>

text \<open>
  A JavaScript number is an IEEE 754 double: a finite value, an infinity or \<^verbatim>\<open>NaN\<close>. A
  finite double is given by its value. The negative zero is not kept apart from zero:
  the code modelled here tests a number for truthiness, where both zeros are falsy, and
  adds it to a product that is zero or positive, where both zeros give the same sum.
\<close>

datatype number = Finite real | Infinity | NegInfinity | NaN

text \<open>The number of binary digits of a natural number, and the powers of two.\<close>

fun bitLength :: "nat \<Rightarrow> nat" where
  "bitLength n = (if n = 0 then 0 else Suc (bitLength (n div 2)))"

declare bitLength.simps [simp del]

definition pow2 :: "int \<Rightarrow> real" where
  "pow2 k = (if 0 \<le> k then 2 ^ nat k else 1 / 2 ^ nat (- k))"

text \<open>
  The binary exponent of a positive value \<open>a\<close>: the \<open>e\<close> with \<open>2\<^sup>e \<le> a < 2\<^sup>e\<^sup>+\<^sup>1\<close>. For
  \<open>a \<ge> 1\<close> it is one less than the number of digits of the integer part; for \<open>a < 1\<close>
  it is minus the least \<open>k\<close> with \<open>1 / a \<le> 2\<^sup>k\<close>.
\<close>

definition binade :: "real \<Rightarrow> int" where
  "binade a =
     (if 1 \<le> a then int (bitLength (nat \<lfloor>a\<rfloor>)) - 1
      else - int (bitLength (nat \<lceil>1 / a\<rceil> - 1)))"

text \<open>Rounding to the nearest integer, ties to the even one.\<close>

definition roundHalfEven :: "real \<Rightarrow> int" where
  "roundHalfEven r =
     (let f = \<lfloor>r\<rfloor>; d = r - of_int f in
      if d < 1 / 2 then f else if 1 / 2 < d then f + 1 else if even f then f else f + 1)"

text \<open>
  The double nearest to a value, ties to even. The doubles with binary exponent \<open>e\<close> are
  the multiples of \<open>2\<^sup>e\<^sup>-\<^sup>5\<^sup>2\<close>, where \<open>e\<close> is at least \<open>-1022\<close> (below that the doubles are
  subnormal and keep the spacing \<open>2\<^sup>-\<^sup>1\<^sup>0\<^sup>7\<^sup>4\<close>); a value that rounds to \<open>2\<^sup>1\<^sup>0\<^sup>2\<^sup>4\<close> or more
  overflows to an infinity.
\<close>

definition roundDouble :: "real \<Rightarrow> number" where
  "roundDouble x =
     (if x = 0 then Finite 0
      else
        let a = \<bar>x\<bar>;
            quantum = pow2 (max (binade a) (- 1022) - 52);
            r = of_int (roundHalfEven (a / quantum)) * quantum
        in if pow2 1024 \<le> r then (if 0 < x then Infinity else NegInfinity)
           else Finite (if 0 < x then r else - r))"

text \<open>The operators \<^verbatim>\<open>+\<close> and \<^verbatim>\<open>*\<close> on numbers, and the truthiness of a number.\<close>

fun jsPlus :: "number \<Rightarrow> number \<Rightarrow> number" where
  "jsPlus (Finite x) (Finite y) = roundDouble (x + y)"
| "jsPlus NaN b = NaN"
| "jsPlus a NaN = NaN"
| "jsPlus Infinity NegInfinity = NaN"
| "jsPlus NegInfinity Infinity = NaN"
| "jsPlus Infinity b = Infinity"
| "jsPlus a Infinity = Infinity"
| "jsPlus NegInfinity b = NegInfinity"
| "jsPlus a NegInfinity = NegInfinity"

definition signOf :: "number \<Rightarrow> int" where
  "signOf a =
     (case a of
        Finite x \<Rightarrow> (if x = 0 then 0 else if 0 < x then 1 else - 1)
      | Infinity \<Rightarrow> 1
      | NegInfinity \<Rightarrow> - 1
      | NaN \<Rightarrow> 0)"

fun jsTimes :: "number \<Rightarrow> number \<Rightarrow> number" where
  "jsTimes (Finite x) (Finite y) = roundDouble (x * y)"
| "jsTimes a b =
     (if a = NaN \<or> b = NaN \<or> signOf a = 0 \<or> signOf b = 0 then NaN
      else if signOf a = signOf b then Infinity else NegInfinity)"

definition numTruthy :: "number \<Rightarrow> bool" where
  "numTruthy a \<longleftrightarrow> a \<noteq> NaN \<and> a \<noteq> Finite 0"

section \<open>Symbol and rule store\<close>

text \<open>
  A production rule as the grammar holds it. A field the JavaScript object lacks is
  \<open>None\<close> (or \<open>False\<close> for the flags, which the code only tests for truthiness).
  Numbers are the doubles of the section above.
\<close>

datatype ruleText = TextString string | TextForms "(string \<times> string) list"

record rule =
  RHS :: "string list"
  terminal :: bool
  ruleText :: "ruleText option"
  cost :: number
  insertionCost :: "number option"
  semantic :: "string option"
  gramCase :: "string option"
  verbForm :: "string option"
  personNumber :: "string option"
  transpositionCost :: "number option"
  insertionIdx :: "nat option"
  transposition :: bool

type_synonym grammar = "string \<rightharpoonup> rule list"

text \<open>
  A \<^verbatim>\<open>Symbol\<close> object: its name and its rule array. The functions below pass the
  object explicitly and return it updated.
\<close>

record symbol =
  name :: string
  rules :: "rule list"

text \<open>\<^verbatim>\<open>Array.prototype.join\<close> on an array of strings.\<close>

fun join :: "string \<Rightarrow> string list \<Rightarrow> string" where
  "join sep [] = []"
| "join sep [x] = x"
| "join sep (x # y # ys) = x @ sep @ join sep (y # ys)"

text \<open>
  The constructor \<^verbatim>\<open>Symbol(grammar, ...symNameChunks)\<close>. A name chunk is \<open>None\<close> when
  the argument is \<^verbatim>\<open>undefined\<close>; \<open>symbolName\<close> is \<^verbatim>\<open>'[' + symNameChunks.join('-') + ']'\<close>
  (\<^verbatim>\<open>join\<close> writes an \<^verbatim>\<open>undefined\<close> element as the empty string). The grammar is returned in both outcomes, so that what
  a failed construction leaves behind can be stated.
\<close>

definition symbolName :: "string option list \<Rightarrow> string" where
  "symbolName symNameChunks = ''['' @ join ''-'' (map (case_option [] id) symNameChunks) @ '']''"

definition Symbol :: "grammar \<Rightarrow> string option list \<Rightarrow> (error + symbol) \<times> grammar" where
  "Symbol grammar symNameChunks =
     (if None \<in> set symNameChunks then (Inl IllFormedSymbol, grammar)
      else
        let this_name = symbolName symNameChunks in
        if grammar this_name \<noteq> None then (Inl DuplicateSymbol, grammar)
        else (Inr \<lparr>name = this_name, rules = []\<rparr>, grammar(this_name \<mapsto> [])))"

text \<open>
  The options object of \<^verbatim>\<open>addRule\<close>. \<open>opt_RHS\<close> is \<open>None\<close> when the object has no own
  property \<^verbatim>\<open>RHS\<close>; a terminal rule gives a string, a nonterminal rule an array of
  \<^verbatim>\<open>Symbol\<close> objects.
\<close>

record semanticObj =
  sem_function :: string
  sem_cost :: number

datatype rhsValue = RhsString string | RhsSymbols "symbol list"

record ruleOpts =
  opt_RHS :: "rhsValue option"
  opt_terminal :: bool
  opt_insertionCost :: "number option"
  opt_textForms :: "(string \<times> string) list option"
  opt_text :: "string option"
  opt_transpositionCost :: "number option"
  opt_semantic :: "semanticObj option"
  opt_gramCase :: "string option"
  opt_verbForm :: "string option"
  opt_personNumber :: "string option"

text \<open>
  The two schema tables of the source. \<^verbatim>\<open>util.illFormedOpts(schema, opts)\<close> itself is
  not part of the sources at hand, so every function that calls it takes it as the
  parameter \<open>illFormedOpts\<close>; the theorems hold for any such check.
\<close>

datatype schema = termRuleOptsSchema | nontermRuleOptsSchema

type_synonym schemaCheck = "schema \<Rightarrow> ruleOpts \<Rightarrow> bool"

text \<open>
  \<^verbatim>\<open>calcCost(costPenalty)\<close>: \<^verbatim>\<open>costPenalty || 0\<close> is \<open>0\<close> for a missing penalty and
  for a falsy one (zero or \<^verbatim>\<open>NaN\<close>), and the penalty itself otherwise. The literal
  \<^verbatim>\<open>1e-7\<close> is the double nearest to \<open>10\<^sup>-\<^sup>7\<close>; \<^verbatim>\<open>this.rules.length\<close>, an array length,
  is a double as it is; the product and the sum are rounded.
\<close>

definition calcCost :: "symbol \<Rightarrow> number option \<Rightarrow> number" where
  "calcCost this costPenalty =
     (let costPenalty =
        (case costPenalty of
           None \<Rightarrow> Finite 0
         | Some c \<Rightarrow> if numTruthy c then c else Finite 0) in
      jsPlus (jsTimes (Finite (real (length (rules this)))) (roundDouble (1 / 10 ^ 7)))
        costPenalty)"

definition newTermRule :: "schemaCheck \<Rightarrow> symbol \<Rightarrow> ruleOpts \<Rightarrow> error + rule" where
  "newTermRule illFormedOpts this opts =
     (if illFormedOpts termRuleOptsSchema opts then Inl IllFormedTerminalRule
      else case opt_RHS opts of
        Some (RhsString s) \<Rightarrow>
          Inr \<lparr>RHS = [s], terminal = True,
               ruleText = (case opt_text opts of
                             Some t \<Rightarrow> if t \<noteq> [] then Some (TextString t)
                                       else map_option TextForms (opt_textForms opts)
                           | None \<Rightarrow> map_option TextForms (opt_textForms opts)),
               cost = calcCost this None,
               insertionCost = opt_insertionCost opts,
               semantic = None, gramCase = None, verbForm = None, personNumber = None,
               transpositionCost = None, insertionIdx = None, transposition = False\<rparr>
      | _ \<Rightarrow> Inl IllFormedTerminalRule)"

definition newNontermRule :: "schemaCheck \<Rightarrow> symbol \<Rightarrow> ruleOpts \<Rightarrow> error + rule" where
  "newNontermRule illFormedOpts this opts =
     (if illFormedOpts nontermRuleOptsSchema opts then Inl IllFormedNonterminalRule
      else case opt_RHS opts of
        Some (RhsSymbols syms) \<Rightarrow>
          if length syms > 2 then Inl (RuleErr ''rules can only have 1 or 2 RHS symbols'')
          else
            let newRule =
              \<lparr>RHS = map name syms, terminal = False, ruleText = None,
               cost = (case opt_semantic opts of
                         Some s \<Rightarrow> calcCost this (Some (sem_cost s))
                       | None \<Rightarrow> calcCost this None),
               insertionCost = None,
               semantic = map_option sem_function (opt_semantic opts),
               gramCase = opt_gramCase opts, verbForm = opt_verbForm opts,
               personNumber = opt_personNumber opts,
               transpositionCost = None, insertionIdx = None, transposition = False\<rparr>
            in (case opt_transpositionCost opts of
                  Some c \<Rightarrow>
                    if length syms \<noteq> 2
                    then Inl (RuleErr ''nonterminal rules with transposition-costs must have 2 RHS symbols'')
                    else Inr (newRule\<lparr>transpositionCost := Some c\<rparr>)
                | None \<Rightarrow> Inr newRule)
      | _ \<Rightarrow> Inl IllFormedNonterminalRule)"

text \<open>
  Modelled from the spec: \<^verbatim>\<open>util.arraysMatch\<close> is not part of the sources at hand. The
  spec speaks of "the same RHS" and of rules with "identical RHS": two arrays match when
  they hold the same strings in the same order.
\<close>

definition arraysMatch :: "string list \<Rightarrow> string list \<Rightarrow> bool" where
  "arraysMatch a b = (a = b)"

definition ruleExists :: "symbol \<Rightarrow> rule \<Rightarrow> bool" where
  "ruleExists this newRule =
     list_ex (\<lambda>existingRule. arraysMatch (RHS existingRule) (RHS newRule)) (rules this)"

text \<open>
  The rule object \<^verbatim>\<open>addRule\<close> builds before it looks for a duplicate: the check for
  the \<^verbatim>\<open>RHS\<close> property, then \<^verbatim>\<open>opts.terminal ? newTermRule(opts) : newNontermRule(opts)\<close>.
\<close>

definition newRuleOf :: "schemaCheck \<Rightarrow> symbol \<Rightarrow> ruleOpts \<Rightarrow> error + rule" where
  "newRuleOf illFormedOpts this opts =
     (case opt_RHS opts of
        None \<Rightarrow> Inl RuleMissingRHS
      | Some _ \<Rightarrow>
          if opt_terminal opts then newTermRule illFormedOpts this opts
          else newNontermRule illFormedOpts this opts)"

definition addRule :: "schemaCheck \<Rightarrow> symbol \<Rightarrow> ruleOpts \<Rightarrow> error + symbol" where
  "addRule illFormedOpts this opts =
     (case newRuleOf illFormedOpts this opts of
        Inl e \<Rightarrow> Inl e
      | Inr newRule \<Rightarrow>
          if ruleExists this newRule then Inl (RuleErr ''duplicate rule'')
          else Inr (this\<lparr>rules := rules this @ [newRule]\<rparr>))"

text \<open>A sequence of \<^verbatim>\<open>addRule\<close> calls on one symbol; the first throw ends it.\<close>

fun addRules :: "schemaCheck \<Rightarrow> symbol \<Rightarrow> ruleOpts list \<Rightarrow> error + symbol" where
  "addRules illFormedOpts this [] = Inr this"
| "addRules illFormedOpts this (opts # rest) =
     (case addRule illFormedOpts this opts of
        Inl e \<Rightarrow> Inl e
      | Inr this' \<Rightarrow> addRules illFormedOpts this' rest)"



section \<open>Ambiguity detector: paths\<close>

text \<open>
  JavaScript values the detector tests for truthiness or uses as a property key: a
  string-or-\<^verbatim>\<open>undefined\<close> is a \<open>string option\<close>; it is truthy when it is a nonempty
  string, and as a key or in a concatenation \<^verbatim>\<open>undefined\<close> reads \<^verbatim>\<open>'undefined'\<close>.
  \<open>elemAt xs i\<close> is \<^verbatim>\<open>xs[i]\<close>, \<^verbatim>\<open>undefined\<close> out of range.
\<close>

definition truthy :: "string option \<Rightarrow> bool" where
  "truthy s = (case s of None \<Rightarrow> False | Some x \<Rightarrow> x \<noteq> [])"

definition strOf :: "string option \<Rightarrow> string" where
  "strOf s = (case s of None \<Rightarrow> ''undefined'' | Some x \<Rightarrow> x)"

definition elemAt :: "'a list \<Rightarrow> nat \<Rightarrow> 'a option" where
  "elemAt xs i = (if i < length xs then Some (xs ! i) else None)"

text \<open>
  The linked list \<^verbatim>\<open>nextSyms\<close> of deferred second branches: \<^verbatim>\<open>undefined\<close> or a cell
  \<^verbatim>\<open>{ sym, next }\<close>. A path object, with its \<^verbatim>\<open>prev\<close> pointer to the path it extends.
\<close>

datatype symList = Undefined | SymCell (sym: string) (nxt: symList)

datatype path = Path (nextSym: "string option") (nextSyms: symList) (terminals: string)
  (symsCount: nat) (pathRHS: "string list") (prev: "path option")

text \<open>
  A set of paths of one root rule: an object mapping a string of terminal symbols to an
  array of paths. Its keys all start with a space or are empty, so JavaScript
  enumerates them in insertion order: an association list in that order.
\<close>

type_synonym pathSets = "(string \<times> path list) list"

text \<open>Edit rules are the rules the detector skips (the test of both loops).\<close>

definition nonEdit :: "rule \<Rightarrow> bool" where
  "nonEdit rule \<longleftrightarrow> insertionIdx rule = None \<and> \<not> transposition rule"

text \<open>The \<^verbatim>\<open>newPath\<close> object \<^verbatim>\<open>searchPaths\<close> builds for a root rule.\<close>

definition initPath :: "rule \<Rightarrow> path" where
  "initPath rule =
     (let rhs = RHS rule; RHSLen = length rhs in
      if terminal rule then
        Path None Undefined ('''' @ '' '' @ strOf (elemAt rhs 0)) (1 + RHSLen) rhs None
      else
        Path (elemAt rhs 0) (if RHSLen = 2 then SymCell (rhs ! 1) Undefined else Undefined)
          '''' (1 + RHSLen) rhs None)"

text \<open>The \<^verbatim>\<open>newPath\<close> object \<^verbatim>\<open>buildPaths\<close> builds to expand \<^verbatim>\<open>lastPath\<close> by a rule.\<close>

definition expandPath :: "path \<Rightarrow> rule \<Rightarrow> path" where
  "expandPath lastPath rule =
     (let rhs = RHS rule; RHSLen = length rhs; lastNextSyms = nextSyms lastPath in
      if terminal rule then
        (case lastNextSyms of
           SymCell s n \<Rightarrow>
             Path (Some s) n (terminals lastPath @ '' '' @ strOf (elemAt rhs 0))
               (symsCount lastPath + RHSLen) rhs (Some lastPath)
         | Undefined \<Rightarrow>
             Path None lastNextSyms (terminals lastPath @ '' '' @ strOf (elemAt rhs 0))
               (symsCount lastPath + RHSLen) rhs (Some lastPath))
      else
        Path (elemAt rhs 0)
          (if RHSLen = 2 then SymCell (rhs ! 1) lastNextSyms else lastNextSyms)
          (terminals lastPath) (symsCount lastPath + RHSLen) rhs (Some lastPath))"

text \<open>
  Filing a path under its terminals: \<^verbatim>\<open>paths.push(newPath)\<close> when the key exists,
  \<^verbatim>\<open>pathSets[newPath.terminals] = [ newPath ]\<close> otherwise.
\<close>

fun addPath :: "pathSets \<Rightarrow> path \<Rightarrow> pathSets" where
  "addPath [] newPath = [(terminals newPath, [newPath])]"
| "addPath ((t, paths) # rest) newPath =
     (if t = terminals newPath then (t, paths @ [newPath]) # rest
      else (t, paths) # addPath rest newPath)"

fun symListLen :: "symList \<Rightarrow> nat" where
  "symListLen Undefined = 0"
| "symListLen (SymCell s n) = Suc (symListLen n)"

text \<open>
  \<^verbatim>\<open>buildPaths(pathSets, lastPath)\<close>, with the grammar and \<^verbatim>\<open>opts.symsLimit\<close> of the
  enclosing closure as parameters and the mutated \<^verbatim>\<open>pathSets\<close> returned.
  \<open>buildPathsLoop\<close> is its \<^verbatim>\<open>for\<close> loop over the rules that remain. A symbol that is not
  a key of the grammar makes \<^verbatim>\<open>rules.length\<close> throw a \<^verbatim>\<open>TypeError\<close>.

  The limit is a natural number: \<^verbatim>\<open>opts.symsLimit\<close> is only used in the test
  \<^verbatim>\<open>newPath.symsCount < opts.symsLimit\<close> on an integer count, where a finite number acts
  as its ceiling (and as \<open>0\<close> when it is negative; \<^verbatim>\<open>NaN\<close> and \<^verbatim>\<open>-Infinity\<close> act as
  \<open>0\<close> too). The limit \<^verbatim>\<open>Infinity\<close>, for which the test never fails and the recursion
  need not end, is not a value of this model.
\<close>

function buildPaths :: "grammar \<Rightarrow> nat \<Rightarrow> pathSets \<Rightarrow> path \<Rightarrow> error + pathSets"
  and buildPathsLoop ::
    "grammar \<Rightarrow> nat \<Rightarrow> rule list \<Rightarrow> pathSets \<Rightarrow> path \<Rightarrow> error + pathSets" where
  "buildPaths grammar symsLimit pathSets lastPath =
     (case grammar (strOf (nextSym lastPath)) of
        None \<Rightarrow> Inl TypeError
      | Some ruleArr \<Rightarrow> buildPathsLoop grammar symsLimit ruleArr pathSets lastPath)"
| "buildPathsLoop grammar symsLimit [] pathSets lastPath = Inr pathSets"
| "buildPathsLoop grammar symsLimit (rule # ruleArr) pathSets lastPath =
     (if nonEdit rule then
        (let newPath = expandPath lastPath rule;
             pathSets1 = addPath pathSets newPath in
         if truthy (nextSym newPath) \<and> symsCount newPath < symsLimit then
           (case buildPaths grammar symsLimit pathSets1 newPath of
              Inl e \<Rightarrow> Inl e
            | Inr pathSets2 \<Rightarrow> buildPathsLoop grammar symsLimit ruleArr pathSets2 lastPath)
         else buildPathsLoop grammar symsLimit ruleArr pathSets1 lastPath)
      else buildPathsLoop grammar symsLimit ruleArr pathSets lastPath)"
  by pat_completeness auto

text \<open>
  A recursive call is on a path with a next symbol and a symbol count below the limit.
  Such a path either has a larger symbol count than the path it expands, or (a terminal
  rule with an empty RHS) the same count and a shorter list of deferred symbols.
\<close>

lemma expandPath_measure:
  "truthy (nextSym (expandPath lastPath rule)) \<Longrightarrow>
   symsCount (expandPath lastPath rule) < symsLimit \<Longrightarrow>
   symsLimit - symsCount (expandPath lastPath rule) < symsLimit - symsCount lastPath \<or>
   (symsLimit - symsCount (expandPath lastPath rule) = symsLimit - symsCount lastPath \<and>
    symListLen (nextSyms (expandPath lastPath rule)) < symListLen (nextSyms lastPath))"
  by (cases "RHS rule"; cases "nextSyms lastPath")
     (auto simp: expandPath_def Let_def truthy_def elemAt_def split: if_splits)

termination buildPaths
proof (relation "measures
    [\<lambda>x. case x of Inl (g, lm, ps, p) \<Rightarrow> lm - symsCount p
               | Inr (g, lm, rs, ps, p) \<Rightarrow> lm - symsCount p,
     \<lambda>x. case x of Inl (g, lm, ps, p) \<Rightarrow> symListLen (nextSyms p)
               | Inr (g, lm, rs, ps, p) \<Rightarrow> symListLen (nextSyms p),
     \<lambda>x. case x of Inl (g, lm, ps, p) \<Rightarrow> 1
               | Inr (g, lm, rs, ps, p) \<Rightarrow> 0,
     \<lambda>x. case x of Inl (g, lm, ps, p) \<Rightarrow> 0
               | Inr (g, lm, rs, ps, p) \<Rightarrow> length rs]", goal_cases)
  case 1
  then show ?case by simp
next
  case (2 grammar symsLimit pathSets lastPath ruleArr)
  then show ?case by simp
next
  case (3 grammar symsLimit rule ruleArr pathSets lastPath newPath pathSets1)
  then show ?case
    using expandPath_measure[of lastPath rule symsLimit] by auto
next
  case 4
  then show ?case by simp
next
  case 5
  then show ?case by simp
next
  case 6
  then show ?case by simp
qed

declare buildPaths.simps [simp del]

text \<open>
  The first half of \<^verbatim>\<open>searchPaths(nontermSym)\<close>: one set of paths per non-edit rule of
  the symbol, each holding the rule's initial path.
\<close>

definition initPathTab :: "rule list \<Rightarrow> pathSets list" where
  "initPathTab ruleArr =
     map (\<lambda>rule. [(terminals (initPath rule), [initPath rule])]) (filter nonEdit ruleArr)"

text \<open>
  The expansion loop of \<^verbatim>\<open>searchPaths\<close>. \<^verbatim>\<open>for (var term in pathSets)\<close> runs over the
  keys the object has when the loop starts (keys added while it runs are not visited);
  \<open>expandKeys\<close> is that loop over the keys that remain, \<open>expandTab\<close> the loop over
  \<^verbatim>\<open>pathTab\<close>.
\<close>

fun expandKeys :: "grammar \<Rightarrow> nat \<Rightarrow> string list \<Rightarrow> pathSets \<Rightarrow> error + pathSets" where
  "expandKeys grammar symsLimit [] pathSets = Inr pathSets"
| "expandKeys grammar symsLimit (term # terms) pathSets =
     (case map_of pathSets term of
        Some (path # _) \<Rightarrow>
          if truthy (nextSym path) then
            (case buildPaths grammar symsLimit pathSets path of
               Inl e \<Rightarrow> Inl e
             | Inr pathSets1 \<Rightarrow> expandKeys grammar symsLimit terms pathSets1)
          else expandKeys grammar symsLimit terms pathSets
      | _ \<Rightarrow> Inl TypeError)"

fun expandTab :: "grammar \<Rightarrow> nat \<Rightarrow> pathSets list \<Rightarrow> error + pathSets list" where
  "expandTab grammar symsLimit [] = Inr []"
| "expandTab grammar symsLimit (pathSets # rest) =
     (case expandKeys grammar symsLimit (map fst pathSets) pathSets of
        Inl e \<Rightarrow> Inl e
      | Inr pathSets1 \<Rightarrow>
          (case expandTab grammar symsLimit rest of
             Inl e \<Rightarrow> Inl e
           | Inr rest1 \<Rightarrow> Inr (pathSets1 # rest1)))"

section \<open>Ambiguity detector: parse trees\<close>

text \<open>
  A parse-tree node \<^verbatim>\<open>{ symbol, children }\<close>; a node without the \<^verbatim>\<open>children\<close> property
  has \<open>None\<close>.
\<close>

datatype tree = Node (symbol: string) (children: "tree list option")

text \<open>
  \<^verbatim>\<open>listToArray(list)\<close>: the RHS arrays along the \<^verbatim>\<open>prev\<close> pointers, the root rule's
  first (each \<^verbatim>\<open>unshift\<close> puts an element in front).
\<close>

fun listToArrayLoop :: "path option \<Rightarrow> string list list \<Rightarrow> string list list" where
  "listToArrayLoop None array = array"
| "listToArrayLoop (Some (Path ns nss t c rhs pv)) array = listToArrayLoop pv (rhs # array)"

definition listToArray :: "path \<Rightarrow> string list list" where
  "listToArray list = listToArrayLoop (Some list) []"

text \<open>
  \<^verbatim>\<open>rulesToTree(lhsSym, rules)\<close>. The array of RHS arrays is shared by all recursive
  calls and shortened by \<^verbatim>\<open>rules.shift()\<close>, so each call returns what is left of it.
  \<open>rulesToTrees\<close> is the loop over the symbols of one RHS.
\<close>

function rulesToTree :: "string \<Rightarrow> string list list \<Rightarrow> tree \<times> string list list"
  and rulesToTrees :: "string list \<Rightarrow> string list list \<Rightarrow> tree list \<times> string list list" where
  "rulesToTree lhsSym ruleRHSs =
     (if take 1 lhsSym = ''['' then
        (case ruleRHSs of
           [] \<Rightarrow> (Node lhsSym None, ruleRHSs)
         | ruleRHS # rest \<Rightarrow>
             (case rulesToTrees ruleRHS rest of
                (newNodeChildren, rest1) \<Rightarrow> (Node lhsSym (Some newNodeChildren), rest1)))
      else (Node lhsSym None, ruleRHSs))"
| "rulesToTrees [] ruleRHSs = ([], ruleRHSs)"
| "rulesToTrees (s # ss) ruleRHSs =
     (case rulesToTree s ruleRHSs of
        (t, ruleRHSs1) \<Rightarrow>
          (case rulesToTrees ss ruleRHSs1 of (ts, ruleRHSs2) \<Rightarrow> (t # ts, ruleRHSs2)))"
  by pat_completeness auto

lemma rulesToTree_length:
  "rulesToTree_rulesToTrees_dom (Inl (lhsSym, ruleRHSs)) \<Longrightarrow>
     length (snd (rulesToTree lhsSym ruleRHSs)) \<le> length ruleRHSs"
  "rulesToTree_rulesToTrees_dom (Inr (syms, ruleRHSs)) \<Longrightarrow>
     length (snd (rulesToTrees syms ruleRHSs)) \<le> length ruleRHSs"
proof (induction lhsSym ruleRHSs and syms ruleRHSs rule: rulesToTree_rulesToTrees.pinduct)
  case (1 lhsSym ruleRHSs)
  then show ?case
    by (auto simp: rulesToTree.psimps split: list.splits prod.splits)
next
  case (2 ruleRHSs)
  then show ?case by (simp add: rulesToTrees.psimps)
next
  case (3 s ss ruleRHSs)
  then show ?case
    by (auto simp: rulesToTrees.psimps split: prod.splits)
qed

termination rulesToTree
proof (relation "measures
    [\<lambda>x. case x of Inl (s, rs) \<Rightarrow> length rs | Inr (ss, rs) \<Rightarrow> length rs,
     \<lambda>x. case x of Inl (s, rs) \<Rightarrow> 0 | Inr (ss, rs) \<Rightarrow> Suc (length ss)]", goal_cases)
  case 1
  then show ?case by simp
next
  case (2 lhsSym ruleRHSs ruleRHS rest)
  then show ?case by simp
next
  case (3 s ss ruleRHSs)
  then show ?case by simp
next
  case (4 s ss ruleRHSs t ruleRHSs1)
  then show ?case
    using rulesToTree_length(1)[of s ruleRHSs] by (cases "rulesToTree s ruleRHSs") auto
qed

declare rulesToTree.simps [simp del]

text \<open>
  \<^verbatim>\<open>nodesEqual(a, b)\<close>; \<open>nodesEqualLoop\<close> is its loop over two child arrays of the same
  length.
\<close>

fun nodesEqual :: "tree \<Rightarrow> tree \<Rightarrow> bool"
  and nodesEqualLoop :: "tree list \<Rightarrow> tree list \<Rightarrow> bool" where
  "nodesEqual (Node sa ca) (Node sb cb) =
     (if sa \<noteq> sb then False
      else case (ca, cb) of
        (None, None) \<Rightarrow> True
      | (Some aChildren, Some bChildren) \<Rightarrow>
          if length aChildren = length bChildren then nodesEqualLoop aChildren bChildren
          else False
      | _ \<Rightarrow> False)"
| "nodesEqualLoop (a # as) (b # bs) = (if \<not> nodesEqual a b then False else nodesEqualLoop as bs)"
| "nodesEqualLoop _ _ = True"

text \<open>
  \<^verbatim>\<open>diffTrees\<close> deletes the \<^verbatim>\<open>children\<close> property of nodes it reaches through the
  objects \<^verbatim>\<open>{ node, par }\<close> of \<^verbatim>\<open>invertTree\<close>, and later iterations read nodes an earlier
  one has changed or cut off. So a node object has an address, its position in the tree
  it was built in (the child indices from the root), and the state of a tree is the list
  of addresses whose \<^verbatim>\<open>children\<close> were deleted. \<open>NodeObj n p par\<close> is the object
  \<^verbatim>\<open>{ node, par }\<close> for the node at address \<open>p\<close>, which was \<open>n\<close> when the tree was inverted;
  the root's object has no \<^verbatim>\<open>par\<close>.
\<close>

datatype nodeObj = NodeObj (node: tree) (pos: "nat list") (par: "nodeObj option")

fun treeSize :: "tree \<Rightarrow> nat" where
  "treeSize (Node s None) = 1"
| "treeSize (Node s (Some cs)) = Suc (sum_list (map treeSize cs))"

text \<open>
  \<^verbatim>\<open>invertTree(tree)\<close>. The head of the list \<open>stack\<close> is the top of the JavaScript stack;
  the loop pushes the children last to first, which leaves them on the stack first to
  last.
\<close>

definition childObjs :: "nodeObj \<Rightarrow> tree list \<Rightarrow> nodeObj list" where
  "childObjs nodeObj childNodes =
     map (\<lambda>c. NodeObj (childNodes ! c) (pos nodeObj @ [c]) (Some nodeObj)) [0..<length childNodes]"

function invertTreeLoop :: "nodeObj list \<Rightarrow> nodeObj list \<Rightarrow> nodeObj list" where
  "invertTreeLoop [] rightmostSyms = rightmostSyms"
| "invertTreeLoop (nodeObj # stack) rightmostSyms =
     (case children (node nodeObj) of
        Some childNodes \<Rightarrow> invertTreeLoop (childObjs nodeObj childNodes @ stack) rightmostSyms
      | None \<Rightarrow> invertTreeLoop stack (rightmostSyms @ [nodeObj]))"
  by pat_completeness auto

lemma childObjs_size:
  "sum_list (map (treeSize \<circ> node) (childObjs nodeObj childNodes)) = sum_list (map treeSize childNodes)"
proof -
  have "map (treeSize \<circ> node) (childObjs nodeObj childNodes)
        = map treeSize (map (\<lambda>c. childNodes ! c) [0..<length childNodes])"
    by (simp add: childObjs_def)
  then show ?thesis by (simp add: map_nth)
qed

termination invertTreeLoop
proof (relation "measure (\<lambda>(stack, acc). sum_list (map (treeSize \<circ> node) stack))", goal_cases)
  case 1
  then show ?case by simp
next
  case (2 nodeObj stack rightmostSyms)
  then show ?case by (cases "node nodeObj") simp
next
  case (3 nodeObj stack rightmostSyms childNodes)
  then show ?case by (cases "node nodeObj") (simp add: childObjs_size)
qed

definition invertTree :: "tree \<Rightarrow> nodeObj list" where
  "invertTree tree = invertTreeLoop [NodeObj tree [] None] []"

text \<open>
  What the node at address \<open>p\<close>, originally \<open>Node s cs\<close>, is after the deletions at the
  addresses \<open>deleted\<close>; \<open>current\<close> is that for the node of a node object.
\<close>

fun view :: "nat list list \<Rightarrow> nat list \<Rightarrow> tree \<Rightarrow> tree"
  and viewChildren :: "nat list list \<Rightarrow> nat list \<Rightarrow> nat \<Rightarrow> tree list \<Rightarrow> tree list" where
  "view deleted p (Node s cs) =
     (if p \<in> set deleted then Node s None
      else case cs of
        None \<Rightarrow> Node s None
      | Some childNodes \<Rightarrow> Node s (Some (viewChildren deleted p 0 childNodes)))"
| "viewChildren deleted p c [] = []"
| "viewChildren deleted p c (child # rest) =
     view deleted (p @ [c]) child # viewChildren deleted p (Suc c) rest"

definition current :: "nat list list \<Rightarrow> nodeObj \<Rightarrow> tree" where
  "current deleted nodeObj = view deleted (pos nodeObj) (node nodeObj)"

text \<open>
  The \<^verbatim>\<open>while\<close> loop of \<^verbatim>\<open>diffTrees\<close>: up both branches while the parents are equal.
  Reading \<^verbatim>\<open>.node\<close> of a missing \<^verbatim>\<open>par\<close> throws a \<^verbatim>\<open>TypeError\<close>.
\<close>

fun climb ::
  "nat list list \<Rightarrow> nat list list \<Rightarrow> nodeObj \<Rightarrow> nodeObj \<Rightarrow> error + nodeObj \<times> nodeObj" where
  "climb deletedA deletedB (NodeObj na pa (Some parA)) (NodeObj nb pb (Some parB)) =
     (if nodesEqual (current deletedA parA) (current deletedB parB)
      then climb deletedA deletedB parA parB
      else Inr (NodeObj na pa (Some parA), NodeObj nb pb (Some parB)))"
| "climb deletedA deletedB nodeObjA nodeObjB = Inl TypeError"

text \<open>The \<^verbatim>\<open>for\<close> loop of \<^verbatim>\<open>diffTrees\<close> from index \<open>n\<close> on.\<close>

function diffTreesLoop ::
  "nodeObj list \<Rightarrow> nodeObj list \<Rightarrow> nat \<Rightarrow> nat \<Rightarrow> nat list list \<Rightarrow> nat list list \<Rightarrow>
   error + nat list list \<times> nat list list" where
  "diffTreesLoop invertedTreeA invertedTreeB minTreeWidth n deletedA deletedB =
     (if n < minTreeWidth then
        (case (elemAt invertedTreeA n, elemAt invertedTreeB n) of
           (Some nodeObjA, Some nodeObjB) \<Rightarrow>
             (case climb deletedA deletedB nodeObjA nodeObjB of
                Inl e \<Rightarrow> Inl e
              | Inr (nodeObjA1, nodeObjB1) \<Rightarrow>
                  diffTreesLoop invertedTreeA invertedTreeB minTreeWidth (Suc n)
                    (pos nodeObjA1 # deletedA) (pos nodeObjB1 # deletedB))
         | _ \<Rightarrow> Inr (deletedA, deletedB))
      else Inr (deletedA, deletedB))"
  by pat_completeness auto
termination
  by (relation "measure (\<lambda>(ia, ib, w, n, da, db). w - n)") auto

declare diffTreesLoop.simps [simp del]

text \<open>
  \<^verbatim>\<open>diffTrees(a, b)\<close> for two separate tree objects: what the two trees are when it
  returns, or the exception it throws.
\<close>

definition diffTrees :: "tree \<Rightarrow> tree \<Rightarrow> error + tree \<times> tree" where
  "diffTrees a b =
     (let invertedTreeA = invertTree a;
          invertedTreeB = invertTree b;
          minTreeWidth = min (length invertedTreeA) (length invertedTreeB) in
      case diffTreesLoop invertedTreeA invertedTreeB minTreeWidth 0 [] [] of
        Inl e \<Rightarrow> Inl e
      | Inr (deletedA, deletedB) \<Rightarrow> Inr (view deletedA [] a, view deletedB [] b))"

definition pairExists :: "(tree \<times> tree) list \<Rightarrow> tree \<Rightarrow> tree \<Rightarrow> bool" where
  "pairExists ambigPairs treeA treeB =
     list_ex (\<lambda>(otherTreeA, otherTreeB).
        (nodesEqual otherTreeA treeA \<and> nodesEqual otherTreeB treeB) \<or>
        (nodesEqual otherTreeA treeB \<and> nodesEqual otherTreeB treeA)) ambigPairs"

section \<open>Ambiguity detector: comparing paths\<close>

fun listsEqual :: "symList \<Rightarrow> symList \<Rightarrow> bool" where
  "listsEqual Undefined Undefined = True"
| "listsEqual Undefined (SymCell s n) = False"
| "listsEqual (SymCell s n) Undefined = False"
| "listsEqual (SymCell s1 n1) (SymCell s2 n2) = (if s1 \<noteq> s2 then False else listsEqual n1 n2)"

record detectorOpts =
  opt_symsLimit :: nat
  opt_findAll :: bool
  opt_useTestRules :: bool
  opt_noOutput :: bool

text \<open>
  What \<^verbatim>\<open>findAmbiguity\<close> does for one nonterminal symbol: its variables
  \<^verbatim>\<open>foundAmbiguity\<close> and \<^verbatim>\<open>ambigPairs\<close>, the pairs of trees it prints after the
  \<^verbatim>\<open>'Ambiguity'\<close> warning (\<open>printed\<close>), the symbols it names in the error
  \<^verbatim>\<open>'Ambiguity not found in test rule'\<close> (\<open>testErrors\<close>), and, to state which pairs of
  paths the detector finds ambiguous, the pairs for which it executes
  \<^verbatim>\<open>foundAmbiguity = true\<close> (\<open>flagged\<close>).
\<close>

record ambiguityLog =
  foundAmbiguity :: bool
  flagged :: "(path \<times> path) list"
  ambigPairs :: "(tree \<times> tree) list"
  printed :: "(tree \<times> tree) list"
  testErrors :: "string list"

definition emptyLog :: ambiguityLog where
  "emptyLog = \<lparr>foundAmbiguity = False, flagged = [], ambigPairs = [], printed = [], testErrors = []\<rparr>"

text \<open>
  The five nested loops of \<^verbatim>\<open>findAmbiguity\<close>, innermost first. The two inner loops
  return whether they were left by \<^verbatim>\<open>break\<close> (the tests \<^verbatim>\<open>o < pathsBLen\<close> and
  \<^verbatim>\<open>p < pathsALen\<close> after them). \<^verbatim>\<open>pathsA.sort\<close> is a stable sort by \<^verbatim>\<open>symsCount\<close>; it
  sorts the array in place, and every later use of the array sorts it again.
\<close>

fun comparePathsB ::
  "detectorOpts \<Rightarrow> string \<Rightarrow> path \<Rightarrow> path list \<Rightarrow> ambiguityLog \<Rightarrow> error + ambiguityLog \<times> bool" where
  "comparePathsB opts nontermSym pathA [] st = Inr (st, False)"
| "comparePathsB opts nontermSym pathA (pathB # pathsB) st =
     (if nextSym pathB = nextSym pathA \<and> listsEqual (nextSyms pathB) (nextSyms pathA) then
        (let st1 = st\<lparr>foundAmbiguity := True, flagged := flagged st @ [(pathA, pathB)]\<rparr> in
         if opt_noOutput opts then Inr (st1, True)
         else
           (case diffTrees (fst (rulesToTree nontermSym (listToArray pathA)))
                           (fst (rulesToTree nontermSym (listToArray pathB))) of
              Inl e \<Rightarrow> Inl e
            | Inr (treeA, treeB) \<Rightarrow>
                if \<not> opt_findAll opts \<or> \<not> pairExists (ambigPairs st1) treeA treeB then
                  (let st2 = st1\<lparr>printed := printed st1 @ [(treeA, treeB)]\<rparr> in
                   if opt_findAll opts then
                     comparePathsB opts nontermSym pathA pathsB
                       (st2\<lparr>ambigPairs := ambigPairs st2 @ [(treeA, treeB)]\<rparr>)
                   else Inr (st2, True))
                else comparePathsB opts nontermSym pathA pathsB st1))
      else comparePathsB opts nontermSym pathA pathsB st)"

fun comparePathsA ::
  "detectorOpts \<Rightarrow> string \<Rightarrow> path list \<Rightarrow> path list \<Rightarrow> ambiguityLog \<Rightarrow> error + ambiguityLog \<times> bool" where
  "comparePathsA opts nontermSym [] pathsB st = Inr (st, False)"
| "comparePathsA opts nontermSym (pathA # pathsA) pathsB st =
     (case comparePathsB opts nontermSym pathA pathsB st of
        Inl e \<Rightarrow> Inl e
      | Inr (st1, stopped) \<Rightarrow>
          if stopped then Inr (st1, True)
          else comparePathsA opts nontermSym pathsA pathsB st1)"

fun compareTerminals ::
  "detectorOpts \<Rightarrow> string \<Rightarrow> pathSets \<Rightarrow> pathSets \<Rightarrow> ambiguityLog \<Rightarrow> error + ambiguityLog" where
  "compareTerminals opts nontermSym [] pathSetsB st = Inr st"
| "compareTerminals opts nontermSym ((terms, pathsA) # pathSetsA) pathSetsB st =
     (case map_of pathSetsB terms of
        None \<Rightarrow> compareTerminals opts nontermSym pathSetsA pathSetsB st
      | Some pathsB \<Rightarrow>
          (case comparePathsA opts nontermSym (sort_key symsCount pathsA) pathsB st of
             Inl e \<Rightarrow> Inl e
           | Inr (st1, stopped) \<Rightarrow>
               if stopped then Inr st1
               else compareTerminals opts nontermSym pathSetsA pathSetsB st1))"

fun compareRootRulesB ::
  "detectorOpts \<Rightarrow> string \<Rightarrow> pathSets \<Rightarrow> pathSets list \<Rightarrow> ambiguityLog \<Rightarrow> error + ambiguityLog" where
  "compareRootRulesB opts nontermSym pathSetsA [] st = Inr st"
| "compareRootRulesB opts nontermSym pathSetsA (pathSetsB # pathTab) st =
     (case compareTerminals opts nontermSym pathSetsA pathSetsB st of
        Inl e \<Rightarrow> Inl e
      | Inr st1 \<Rightarrow> compareRootRulesB opts nontermSym pathSetsA pathTab st1)"

fun compareRootRulesA ::
  "detectorOpts \<Rightarrow> string \<Rightarrow> pathSets list \<Rightarrow> ambiguityLog \<Rightarrow> error + ambiguityLog" where
  "compareRootRulesA opts nontermSym [] st = Inr st"
| "compareRootRulesA opts nontermSym (pathSetsA # pathTab) st =
     (case compareRootRulesB opts nontermSym pathSetsA pathTab st of
        Inl e \<Rightarrow> Inl e
      | Inr st1 \<Rightarrow> compareRootRulesA opts nontermSym pathTab st1)"

text \<open>\<^verbatim>\<open>String.prototype.indexOf\<close>: the first index of the search string, or \<open>-1\<close>.\<close>

fun indexOf :: "string \<Rightarrow> string \<Rightarrow> int" where
  "indexOf [] searchString = (if searchString = [] then 0 else - 1)"
| "indexOf (c # cs) searchString =
     (if take (length searchString) (c # cs) = searchString then 0
      else (let i = indexOf cs searchString in if i < 0 then - 1 else i + 1))"

definition findAmbiguity :: "detectorOpts \<Rightarrow> string \<Rightarrow> pathSets list \<Rightarrow> error + ambiguityLog" where
  "findAmbiguity opts nontermSym pathTab =
     (case compareRootRulesA opts nontermSym pathTab emptyLog of
        Inl e \<Rightarrow> Inl e
      | Inr st \<Rightarrow>
          if \<not> foundAmbiguity st \<and> opt_useTestRules opts \<and> indexOf nontermSym ''ambig'' = 1
          then Inr (st\<lparr>testErrors := testErrors st @ [nontermSym]\<rparr>)
          else Inr st)"

text \<open>
  \<^verbatim>\<open>searchPaths(nontermSym)\<close>: the initial paths, the early return for a single non-edit
  rule, the expansion, and the search for ambiguity.
\<close>

definition searchPaths :: "grammar \<Rightarrow> detectorOpts \<Rightarrow> string \<Rightarrow> error + ambiguityLog" where
  "searchPaths grammar opts nontermSym =
     (case grammar nontermSym of
        None \<Rightarrow> Inl TypeError
      | Some ruleArr \<Rightarrow>
          (let pathTab = initPathTab ruleArr in
           if length pathTab = 1 then Inr emptyLog
           else
             (case expandTab grammar (opt_symsLimit opts) pathTab of
                Inl e \<Rightarrow> Inl e
              | Inr pathTab1 \<Rightarrow> findAmbiguity opts nontermSym pathTab1)))"

text \<open>
  The module's function. The grammar object is the list of its entries in enumeration
  order. The test rules of \<^verbatim>\<open>ambiguityExamples.js\<close> and \<^verbatim>\<open>util.illFormedOpts\<close> are not
  part of the sources at hand and are parameters. An exception ends the whole run.
\<close>

fun searchAll ::
  "grammar \<Rightarrow> detectorOpts \<Rightarrow> string list \<Rightarrow> error + (string \<times> ambiguityLog) list" where
  "searchAll grammar opts [] = Inr []"
| "searchAll grammar opts (nontermSym # syms) =
     (case searchPaths grammar opts nontermSym of
        Inl e \<Rightarrow> Inl e
      | Inr st \<Rightarrow>
          (case searchAll grammar opts syms of
             Inl e \<Rightarrow> Inl e
           | Inr sts \<Rightarrow> Inr ((nontermSym, st) # sts)))"

definition ambiguityCheck ::
  "(detectorOpts \<Rightarrow> bool) \<Rightarrow> (string \<times> rule list) list \<Rightarrow> (string \<times> rule list) list \<Rightarrow>
   detectorOpts \<Rightarrow> error + (string \<times> ambiguityLog) list" where
  "ambiguityCheck illFormedOpts ambiguityExamples grammar opts =
     (if illFormedOpts opts then Inr []
      else
        (let grammar1 = (if opt_useTestRules opts then ambiguityExamples else grammar) in
         searchAll (map_of grammar1) opts (map fst grammar1)))"

section \<open>Verb terminal rule sets\<close>

text \<open>
  The verb descriptor (\<^verbatim>\<open>VerbTermSet\<close>), the text object shared by the rules of a set,
  and the rule object \<^verbatim>\<open>createVerbTerminalRule\<close> returns.
\<close>

record verbTermSet =
  oneSg :: string
  threeSg :: string
  pl :: string
  past :: "string option"
  presentSubjunctive :: "string option"
  presentParticiple :: "string option"
  pastParticiple :: "string option"

record verbSetTextForms =
  text_oneSg :: string
  text_threeSg :: string
  text_pl :: string
  text_past :: "string option"

record verbRule =
  isTerminal :: bool
  rhs :: string
  verbText :: "verbSetTextForms option"
  tense :: "string option"
  verbInsertionCost :: "number option"

definition createVerbTerminalRule ::
  "string \<Rightarrow> verbSetTextForms option \<Rightarrow> string \<Rightarrow> error + verbRule" where
  "createVerbTerminalRule terminalSymbol verbSetTextForms tns =
     (if tns \<noteq> ''present'' \<and> tns \<noteq> ''past'' then Inl IllFormedVerb
      else Inr \<lparr>isTerminal = True, rhs = terminalSymbol, verbText = verbSetTextForms,
                tense = (if tns = ''past'' then Some tns else None),
                verbInsertionCost = None\<rparr>)"

text \<open>
  Modelled from the spec: \<^verbatim>\<open>NSymbol.prototype.addRule\<close>, which \<^verbatim>\<open>newVerbSet\<close> calls as
  \<^verbatim>\<open>verbSym.addRule\<close>, is not part of the sources at hand. By the spec's
  \<^verbatim>\<open>addTerminalRule\<close> it is to "validate against the terminal schema; fail with
  \<^verbatim>\<open>IllFormedRule\<close> on schema violation or \<^verbatim>\<open>DuplicateRule\<close> if the same RHS already
  belongs to" the symbol; otherwise the rule is added to the symbol's list. The terminal
  schema is not part of the sources either: the validation is the parameter
  \<open>illFormedRule\<close>, true of a rule that violates the schema.
\<close>

definition verbSymAddRule ::
  "(verbRule \<Rightarrow> bool) \<Rightarrow> verbRule list \<Rightarrow> verbRule \<Rightarrow> error + verbRule list" where
  "verbSymAddRule illFormedRule verbRules newRule =
     (if illFormedRule newRule then Inl IllFormedRule
      else if list_ex (\<lambda>existingRule. rhs existingRule = rhs newRule) verbRules
      then Inl DuplicateRule
      else Inr (verbRules @ [newRule]))"

text \<open>
  The two statements \<^verbatim>\<open>verbSym.addRule(createVerbTerminalRule(form, textForms, tense))\<close>
  and \<^verbatim>\<open>addedInlectionTermSyms.push(form)\<close>, which \<^verbatim>\<open>newVerbSet\<close> repeats for every
  form, and the three guards it puts around them: for \<^verbatim>\<open>threeSg\<close> and \<^verbatim>\<open>pl\<close>, for
  \<^verbatim>\<open>past\<close>, and for the three optional forms after it.
\<close>

definition addInflection ::
  "(verbRule \<Rightarrow> bool) \<Rightarrow> verbRule list \<Rightarrow> string list \<Rightarrow> string \<Rightarrow> verbSetTextForms option \<Rightarrow> string \<Rightarrow>
   error + verbRule list \<times> string list" where
  "addInflection illFormedRule verbRules added terminalSymbol textForms tns =
     (case createVerbTerminalRule terminalSymbol textForms tns of
        Inl e \<Rightarrow> Inl e
      | Inr newRule \<Rightarrow>
          (case verbSymAddRule illFormedRule verbRules newRule of
             Inl e \<Rightarrow> Inl e
           | Inr verbRules1 \<Rightarrow> Inr (verbRules1, added @ [terminalSymbol])))"

definition addUniqueInflection ::
  "(verbRule \<Rightarrow> bool) \<Rightarrow> verbRule list \<Rightarrow> string list \<Rightarrow> string \<Rightarrow> verbSetTextForms option \<Rightarrow> string \<Rightarrow>
   error + verbRule list \<times> string list" where
  "addUniqueInflection illFormedRule verbRules added terminalSymbol textForms tns =
     (if terminalSymbol \<notin> set added
      then addInflection illFormedRule verbRules added terminalSymbol textForms tns
      else Inr (verbRules, added))"

definition addPastInflection ::
  "(verbRule \<Rightarrow> bool) \<Rightarrow> verbRule list \<Rightarrow> string list \<Rightarrow> string option \<Rightarrow> verbSetTextForms option \<Rightarrow>
   error + verbRule list \<times> string list" where
  "addPastInflection illFormedRule verbRules added form textForms =
     (if truthy form then
        (if strOf form \<in> set added then Inl IllFormedVerb
         else addInflection illFormedRule verbRules added (strOf form) textForms ''past'')
      else Inr (verbRules, added))"

definition addOptionalInflection ::
  "(verbRule \<Rightarrow> bool) \<Rightarrow> verbRule list \<Rightarrow> string list \<Rightarrow> string option \<Rightarrow> verbSetTextForms option \<Rightarrow> string \<Rightarrow>
   error + verbRule list \<times> string list" where
  "addOptionalInflection illFormedRule verbRules added form textForms tns =
     (if truthy form \<and> strOf form \<notin> set added
      then addInflection illFormedRule verbRules added (strOf form) textForms tns
      else Inr (verbRules, added))"

text \<open>
  The part both \<^verbatim>\<open>forEach\<close> callbacks of \<^verbatim>\<open>newVerbSet\<close> have in common: the forms
  after \<^verbatim>\<open>oneSg\<close>, in the order of the source.
\<close>

definition addOtherInflections ::
  "(verbRule \<Rightarrow> bool) \<Rightarrow> verbRule list \<Rightarrow> string list \<Rightarrow> verbTermSet \<Rightarrow> verbSetTextForms option \<Rightarrow>
   error + verbRule list" where
  "addOtherInflections illFormedRule verbRules1 added1 verbTermSet textForms =
     (case addUniqueInflection illFormedRule verbRules1 added1 (threeSg verbTermSet) textForms ''present'' of
        Inl e \<Rightarrow> Inl e
      | Inr (verbRules2, added2) \<Rightarrow>
     (case addUniqueInflection illFormedRule verbRules2 added2 (pl verbTermSet) textForms ''present'' of
        Inl e \<Rightarrow> Inl e
      | Inr (verbRules3, added3) \<Rightarrow>
     (case addPastInflection illFormedRule verbRules3 added3 (past verbTermSet) textForms of
        Inl e \<Rightarrow> Inl e
      | Inr (verbRules4, added4) \<Rightarrow>
     (case addOptionalInflection illFormedRule verbRules4 added4 (presentSubjunctive verbTermSet)
             textForms ''present'' of
        Inl e \<Rightarrow> Inl e
      | Inr (verbRules5, added5) \<Rightarrow>
     (case addOptionalInflection illFormedRule verbRules5 added5 (presentParticiple verbTermSet)
             textForms ''present'' of
        Inl e \<Rightarrow> Inl e
      | Inr (verbRules6, added6) \<Rightarrow>
     (case addOptionalInflection illFormedRule verbRules6 added6 (pastParticiple verbTermSet)
             textForms ''past'' of
        Inl e \<Rightarrow> Inl e
      | Inr (verbRules7, added7) \<Rightarrow> Inr verbRules7))))))"

definition verbSetTextFormsOf :: "verbTermSet \<Rightarrow> verbSetTextForms" where
  "verbSetTextFormsOf verbTermSet =
     \<lparr>text_oneSg = oneSg verbTermSet, text_threeSg = threeSg verbTermSet,
      text_pl = pl verbTermSet, text_past = past verbTermSet\<rparr>"

text \<open>
  The callback for an accepted verb set with index \<open>i\<close>, on the rules the verb symbol
  has so far. The check \<^verbatim>\<open>util.illFormedOpts(verbTermSetSchema, verbTermSet)\<close> is a
  parameter.
\<close>

definition acceptedVerbTermSet ::
  "(verbTermSet \<Rightarrow> bool) \<Rightarrow> (verbRule \<Rightarrow> bool) \<Rightarrow> number option \<Rightarrow> verbRule list \<Rightarrow> verbTermSet \<Rightarrow> nat \<Rightarrow>
   error + verbRule list" where
  "acceptedVerbTermSet illFormedOpts illFormedRule insertionCostOpt verbRules verbTermSet i =
     (if illFormedOpts verbTermSet then Inl IllFormedVerb
      else
        let verbSetTextForms = Some (verbSetTextFormsOf verbTermSet) in
        case createVerbTerminalRule (oneSg verbTermSet) verbSetTextForms ''present'' of
          Inl e \<Rightarrow> Inl e
        | Inr oneSgTermRule \<Rightarrow>
            let oneSgTermRule1 =
              (if i = 0 \<and> insertionCostOpt \<noteq> None
               then oneSgTermRule\<lparr>verbInsertionCost := insertionCostOpt\<rparr>
               else oneSgTermRule) in
            case verbSymAddRule illFormedRule verbRules oneSgTermRule1 of
              Inl e \<Rightarrow> Inl e
            | Inr verbRules1 \<Rightarrow>
                addOtherInflections illFormedRule verbRules1 [oneSg verbTermSet] verbTermSet verbSetTextForms)"

text \<open>The callback for a substituted verb set: every rule gets \<^verbatim>\<open>defaultTextForms\<close>.\<close>

definition substitutedVerbTermSet ::
  "(verbTermSet \<Rightarrow> bool) \<Rightarrow> (verbRule \<Rightarrow> bool) \<Rightarrow> verbSetTextForms option \<Rightarrow> verbRule list \<Rightarrow> verbTermSet \<Rightarrow>
   error + verbRule list" where
  "substitutedVerbTermSet illFormedOpts illFormedRule defaultTextForms verbRules verbTermSet =
     (if illFormedOpts verbTermSet then Inl IllFormedVerb
      else
        case addInflection illFormedRule verbRules [] (oneSg verbTermSet) defaultTextForms ''present'' of
          Inl e \<Rightarrow> Inl e
        | Inr (verbRules1, added1) \<Rightarrow>
            addOtherInflections illFormedRule verbRules1 added1 verbTermSet defaultTextForms)"

fun acceptedVerbTermSets ::
  "(verbTermSet \<Rightarrow> bool) \<Rightarrow> (verbRule \<Rightarrow> bool) \<Rightarrow> number option \<Rightarrow> verbRule list \<Rightarrow> verbTermSet list \<Rightarrow> nat \<Rightarrow>
   error + verbRule list" where
  "acceptedVerbTermSets illFormedOpts illFormedRule insertionCostOpt verbRules [] i = Inr verbRules"
| "acceptedVerbTermSets illFormedOpts illFormedRule insertionCostOpt verbRules (verbTermSet # sets) i =
     (case acceptedVerbTermSet illFormedOpts illFormedRule insertionCostOpt verbRules verbTermSet i of
        Inl e \<Rightarrow> Inl e
      | Inr verbRules1 \<Rightarrow>
          acceptedVerbTermSets illFormedOpts illFormedRule insertionCostOpt verbRules1 sets (Suc i))"

fun substitutedVerbTermSets ::
  "(verbTermSet \<Rightarrow> bool) \<Rightarrow> (verbRule \<Rightarrow> bool) \<Rightarrow> verbSetTextForms option \<Rightarrow> verbRule list \<Rightarrow> verbTermSet list \<Rightarrow>
   error + verbRule list" where
  "substitutedVerbTermSets illFormedOpts illFormedRule defaultTextForms verbRules [] = Inr verbRules"
| "substitutedVerbTermSets illFormedOpts illFormedRule defaultTextForms verbRules (verbTermSet # sets) =
     (case substitutedVerbTermSet illFormedOpts illFormedRule defaultTextForms verbRules verbTermSet of
        Inl e \<Rightarrow> Inl e
      | Inr verbRules1 \<Rightarrow>
          substitutedVerbTermSets illFormedOpts illFormedRule defaultTextForms verbRules1 sets)"

text \<open>
  \<^verbatim>\<open>newVerbSet(options)\<close>, returning the rules of the new verb symbol.
  \<^verbatim>\<open>this.newSymbol\<close> is not part of the sources at hand: the new symbol starts without
  rules.
\<close>

record verbSetOptions =
  verbSymbolName :: string
  insertionCostOption :: "number option"
  acceptedSets :: "verbTermSet list"
  substitutedSets :: "verbTermSet list option"

definition newVerbSet ::
  "(verbSetOptions \<Rightarrow> bool) \<Rightarrow> (verbTermSet \<Rightarrow> bool) \<Rightarrow> (verbRule \<Rightarrow> bool) \<Rightarrow>
   verbSetOptions \<Rightarrow>
   error + verbRule list" where
  "newVerbSet illFormedSetOpts illFormedOpts illFormedRule options =
     (if illFormedSetOpts options then Inl IllFormedVerbSet
      else
        let defaultTextForms =
          (case acceptedSets options of
             [] \<Rightarrow> None
           | verbTermSet # _ \<Rightarrow> Some (verbSetTextFormsOf verbTermSet)) in
        case acceptedVerbTermSets illFormedOpts illFormedRule (insertionCostOption options) []
               (acceptedSets options) 0 of
          Inl e \<Rightarrow> Inl e
        | Inr verbRules1 \<Rightarrow>
            (case substitutedSets options of
               None \<Rightarrow> Inr verbRules1
             | Some sets \<Rightarrow>
                 substitutedVerbTermSets illFormedOpts illFormedRule defaultTextForms verbRules1 sets))"

section \<open>Notions used to state the properties, and example inputs\<close>

text \<open>Objects with only the listed properties set, for the concrete instances below.\<close>

definition plainRule :: "string list \<Rightarrow> bool \<Rightarrow> rule" where
  "plainRule symbols isTerm =
     \<lparr>RHS = symbols, terminal = isTerm, ruleText = None, cost = Finite 0, insertionCost = None,
      semantic = None, gramCase = None, verbForm = None, personNumber = None,
      transpositionCost = None, insertionIdx = None, transposition = False\<rparr>"

definition plainOpts :: "rhsValue \<Rightarrow> bool \<Rightarrow> ruleOpts" where
  "plainOpts symbols isTerm =
     \<lparr>opt_RHS = Some symbols, opt_terminal = isTerm, opt_insertionCost = None,
      opt_textForms = None, opt_text = None, opt_transpositionCost = None,
      opt_semantic = None, opt_gramCase = None, opt_verbForm = None,
      opt_personNumber = None\<rparr>"

text \<open>A symbol with thirteen terminal rules.\<close>

definition thirteenRules :: symbol where
  "thirteenRules =
     \<lparr>name = ''[s]'',
      rules = map (\<lambda>w. plainRule [w] True)
        [''a'', ''b'', ''c'', ''d'', ''e'', ''f'', ''g'', ''h'', ''i'', ''j'', ''k'', ''l'', ''m'']\<rparr>"

definition acceptAll :: schemaCheck where
  "acceptAll schema opts = False"

definition rejectAll :: schemaCheck where
  "rejectAll schema opts = True"










text \<open>A result with the pair of trees in the other order.\<close>

definition swapped :: "error + 'a \<times> 'b \<Rightarrow> error + 'b \<times> 'a" where
  "swapped r = (case r of Inl e \<Rightarrow> Inl e | Inr (a, b) \<Rightarrow> Inr (b, a))"


text \<open>The grammar with every edit rule deleted from every rule list.\<close>

definition withoutEditRules :: "grammar \<Rightarrow> grammar" where
  "withoutEditRules grammar = (\<lambda>s. map_option (filter nonEdit) (grammar s))"

text \<open>All paths of a set of paths, key by key.\<close>

definition pathsOf :: "pathSets \<Rightarrow> path list" where
  "pathsOf pathSets = concat (map snd pathSets)"

text \<open>
  A path that was built with non-edit rules only, the way the detector builds paths: a
  path without \<^verbatim>\<open>prev\<close> is the initial path of a non-edit rule of the root symbol; a path
  with \<^verbatim>\<open>prev\<close> is the expansion, by a non-edit rule of the previous path's next symbol,
  of a path built that way which has a next symbol and is an initial path or has a symbol
  count below the limit.
\<close>

fun validPath :: "grammar \<Rightarrow> nat \<Rightarrow> rule list \<Rightarrow> path \<Rightarrow> bool" where
  "validPath grammar symsLimit rootRules (Path ns nss t c r None) =
     list_ex (\<lambda>rule. nonEdit rule \<and> Path ns nss t c r None = initPath rule) rootRules"
| "validPath grammar symsLimit rootRules (Path ns nss t c r (Some lastPath)) =
     (validPath grammar symsLimit rootRules lastPath \<and>
      truthy (nextSym lastPath) \<and>
      (prev lastPath = None \<or> symsCount lastPath < symsLimit) \<and>
      (case grammar (strOf (nextSym lastPath)) of
         None \<Rightarrow> False
       | Some ruleArr \<Rightarrow>
           list_ex (\<lambda>rule. nonEdit rule \<and> Path ns nss t c r (Some lastPath) = expandPath lastPath rule)
             ruleArr))"

text \<open>A set of paths in which no key occurs twice and every path is filed under its terminals.\<close>

definition wellFiled :: "pathSets \<Rightarrow> bool" where
  "wellFiled pathSets \<longleftrightarrow>
     distinct (map fst pathSets) \<and>
     list_all (\<lambda>(t, paths). list_all (\<lambda>p. terminals p = t) paths) pathSets"


text \<open>Example grammars: one with edit rules, and a small ambiguous one.\<close>

definition exampleOpts :: detectorOpts where
  "exampleOpts = \<lparr>opt_symsLimit = 5, opt_findAll = False, opt_useTestRules = False,
     opt_noOutput = False\<rparr>"

definition editRulesGrammar :: "(string \<times> rule list) list" where
  "editRulesGrammar =
     [(''[S]'', [plainRule [''[A]'', ''[B]''] False, plainRule [''[B]''] False,
                (plainRule [''[B]'', ''[A]''] False)\<lparr>transposition := True\<rparr>]),
      (''[A]'', [plainRule [''x''] True, (plainRule [''[B]''] False)\<lparr>insertionIdx := Some 0\<rparr>]),
      (''[B]'', [plainRule [''y''] True])]"


text \<open>The invariant of path enumeration, and the paths \<^verbatim>\<open>buildPaths\<close> is called on.\<close>

definition tabInv :: "grammar \<Rightarrow> nat \<Rightarrow> rule list \<Rightarrow> pathSets \<Rightarrow> bool" where
  "tabInv grammar symsLimit rootRules pathSets \<longleftrightarrow>
     wellFiled pathSets \<and> list_all (validPath grammar symsLimit rootRules) (pathsOf pathSets)"

definition expandable :: "grammar \<Rightarrow> nat \<Rightarrow> rule list \<Rightarrow> path \<Rightarrow> bool" where
  "expandable grammar symsLimit rootRules p \<longleftrightarrow>
     validPath grammar symsLimit rootRules p \<and> truthy (nextSym p) \<and>
     (prev p = None \<or> symsCount p < symsLimit)"

text \<open>
  The symbols a \<^verbatim>\<open>nextSyms\<close> list spells, and the condition under which two paths are
  an instance of ambiguity: identical terminals, the same next symbol, and lists of
  next symbols that spell the same sequence. \<open>pathsMatch\<close> is the test the inner loop
  of \<^verbatim>\<open>findAmbiguity\<close> makes on two paths filed under one terminals string.
\<close>

fun symsOf :: "symList \<Rightarrow> string list" where
  "symsOf Undefined = []"
| "symsOf (SymCell s n) = s # symsOf n"

definition ambiguousPair :: "path \<Rightarrow> path \<Rightarrow> bool" where
  "ambiguousPair pathA pathB \<longleftrightarrow>
     terminals pathA = terminals pathB \<and> nextSym pathA = nextSym pathB \<and>
     symsOf (nextSyms pathA) = symsOf (nextSyms pathB)"

definition pathsMatch :: "path \<Rightarrow> path \<Rightarrow> bool" where
  "pathsMatch pathA pathB \<longleftrightarrow>
     nextSym pathB = nextSym pathA \<and> listsEqual (nextSyms pathB) (nextSyms pathA)"

text \<open>
  The pairs of paths that pass the test: for one path and an array, for two arrays, and
  for the path sets of two root rules; and the pairs of root rules in the order the two
  outer loops visit them.
\<close>

definition matchesB :: "path \<Rightarrow> path list \<Rightarrow> (path \<times> path) set" where
  "matchesB pathA pathsB = {(pA, pathB). pA = pathA \<and> pathB \<in> set pathsB \<and> pathsMatch pathA pathB}"

definition matchesA :: "path list \<Rightarrow> path list \<Rightarrow> (path \<times> path) set" where
  "matchesA pathsA pathsB =
     {(pathA, pathB). pathA \<in> set pathsA \<and> pathB \<in> set pathsB \<and> pathsMatch pathA pathB}"

definition matchesT :: "pathSets \<Rightarrow> pathSets \<Rightarrow> (path \<times> path) set" where
  "matchesT pathSetsA pathSetsB =
     {(pathA, pathB). \<exists>t pathsA pathsB.
        (t, pathsA) \<in> set pathSetsA \<and> map_of pathSetsB t = Some pathsB \<and>
        pathA \<in> set pathsA \<and> pathB \<in> set pathsB \<and> pathsMatch pathA pathB}"

fun rootPairs :: "pathSets list \<Rightarrow> (pathSets \<times> pathSets) list" where
  "rootPairs [] = []"
| "rootPairs (pathSetsA # pathTab) = map (Pair pathSetsA) pathTab @ rootPairs pathTab"

text \<open>
  What a part of the search has done to the log when it has looked through the groups
  of matching pairs \<open>groups\<close> (one group for each pair of root rules): it has flagged
  the pairs \<open>fl\<close>, all of them matching pairs, at least one from every group that is
  not empty, and all of them when every instance is asked for and output is on; the
  test errors are untouched.
\<close>

definition searched ::
  "detectorOpts \<Rightarrow> (path \<times> path) set set \<Rightarrow> (path \<times> path) list \<Rightarrow>
   ambiguityLog \<Rightarrow> ambiguityLog \<Rightarrow> bool" where
  "searched opts groups fl st st' \<longleftrightarrow>
     flagged st' = flagged st @ fl \<and> set fl \<subseteq> \<Union>groups \<and>
     (\<forall>M \<in> groups. M \<noteq> {} \<longrightarrow> set fl \<inter> M \<noteq> {}) \<and>
     (opt_findAll opts \<and> \<not> opt_noOutput opts \<longrightarrow> set fl = \<Union>groups) \<and>
     foundAmbiguity st' = (foundAmbiguity st \<or> fl \<noteq> []) \<and>
     testErrors st' = testErrors st"

text \<open>
  Example grammars for the search: two root rules whose branches produce the same two
  words, and test rules (with the options that select them) named with and without
  \<^verbatim>\<open>ambig\<close> right after the bracket. \<open>wordPath\<close> is the path of a root rule followed
  by a terminal rule, \<open>wordTree\<close> its parse tree.
\<close>

definition twoWordsGrammar :: "(string \<times> rule list) list" where
  "twoWordsGrammar =
     [(''[S]'', [plainRule [''[A]''] False, plainRule [''[B]''] False]),
      (''[A]'', [plainRule [''x''] True, plainRule [''y''] True]),
      (''[B]'', [plainRule [''x''] True, plainRule [''y''] True])]"

definition wordPath :: "string \<Rightarrow> string \<Rightarrow> path" where
  "wordPath branch w = expandPath (initPath (plainRule [branch] False)) (plainRule [w] True)"

definition wordTree :: "string \<Rightarrow> string \<Rightarrow> tree" where
  "wordTree branch w = Node ''[S]'' (Some [Node branch (Some [Node w None])])"

definition testOpts :: detectorOpts where
  "testOpts = exampleOpts\<lparr>opt_useTestRules := True\<rparr>"


text \<open>Test rules with a symbol that derives itself, ahead of one without ambiguity.\<close>

definition loopGrammar :: "(string \<times> rule list) list" where
  "loopGrammar =
     [(''[S]'', [plainRule [''x''] True, plainRule [''[T]''] False]),
      (''[T]'', [plainRule [''[S]''] False]),
      (''[ambig-miss]'', [plainRule [''x''] True, plainRule [''y''] True])]"

section \<open>Evaluating numbers\<close>

text \<open>The digits of a numeral are counted digit by digit.\<close>

lemma bitLength_0 [simp]: "bitLength 0 = 0"
  by (simp add: bitLength.simps)

lemma bitLength_1 [simp]: "bitLength (Suc 0) = Suc 0"
  by (simp add: bitLength.simps)

lemma bitLength_numeral [simp]:
  "bitLength (numeral k) = Suc (bitLength (numeral k div 2))"
  by (subst bitLength.simps) simp

lemmas double_eval = roundDouble_def binade_def pow2_def roundHalfEven_def Let_def

text \<open>
  The literal \<^verbatim>\<open>1e-7\<close> is the double nearest to \<open>10\<^sup>-\<^sup>7\<close>, which is not \<open>10\<^sup>-\<^sup>7\<close>; and
  thirteen times that double, rounded, is not the double nearest to \<open>13 \<sqdot> 10\<^sup>-\<^sup>7\<close>.
\<close>

lemma roundDouble_1e_minus_7: "roundDouble (1 / 10 ^ 7) = Finite (944473296573929 / 2 ^ 73)"
  by (simp add: double_eval)

lemma thirteen_times_1e_minus_7:
  "jsTimes (Finite 13) (roundDouble (1 / 10 ^ 7)) = Finite (3069538213865269 / 2 ^ 71)"
  by (simp add: double_eval)

lemma roundDouble_13e_minus_7: "roundDouble (13 / 10 ^ 7) = Finite (6139076427730539 / 2 ^ 72)"
  by (simp add: double_eval)

text \<open>Ties go to the even neighbour, and the sign is kept.\<close>

lemma roundDouble_examples:
  "roundDouble (1 / 3) = Finite (6004799503160661 / 2 ^ 54) \<and>
   roundDouble (2 ^ 53 + 1) = Finite (2 ^ 53) \<and>
   roundDouble (2 ^ 53 + 3) = Finite (2 ^ 53 + 4) \<and>
   roundDouble (- (1 / 10)) = Finite (- (3602879701896397 / 2 ^ 55))"
  by (simp add: double_eval)

section \<open>Properties of the symbol and rule store\<close>


lemma addRule_Inr:
  "addRule illFormedOpts this opts = Inr this' \<longleftrightarrow>
   (\<exists>newRule. newRuleOf illFormedOpts this opts = Inr newRule \<and>
      \<not> ruleExists this newRule \<and> this' = this\<lparr>rules := rules this @ [newRule]\<rparr>)"
  by (auto simp: addRule_def split: sum.splits)

lemma ruleExists_iff:
  "ruleExists this newRule \<longleftrightarrow> (\<exists>r \<in> set (rules this). RHS r = RHS newRule)"
  by (auto simp: ruleExists_def arraysMatch_def list_ex_iff)

lemma newRuleOf_not_duplicate_error:
  "newRuleOf illFormedOpts this opts \<noteq> Inl (RuleErr ''duplicate rule'')"
  by (auto simp: newRuleOf_def newTermRule_def newNontermRule_def Let_def
      split: option.splits rhsValue.splits if_splits)

lemma addRule_distinct:
  "distinct (map RHS (rules this)) \<Longrightarrow> addRule illFormedOpts this opts = Inr this' \<Longrightarrow>
   distinct (map RHS (rules this'))"
proof -
  assume d: "distinct (map RHS (rules this))" and a: "addRule illFormedOpts this opts = Inr this'"
  from a obtain newRule where
    fresh: "\<not> ruleExists this newRule" and
    this': "this' = this\<lparr>rules := rules this @ [newRule]\<rparr>"
    unfolding addRule_Inr by blast
  from fresh have "RHS newRule \<notin> set (map RHS (rules this))"
    unfolding ruleExists_iff by force
  with d show ?thesis by (simp add: this')
qed

lemma addRules_distinct:
  "distinct (map RHS (rules this)) \<Longrightarrow> addRules illFormedOpts this optsList = Inr this' \<Longrightarrow>
   distinct (map RHS (rules this'))"
proof (induction optsList arbitrary: this)
  case Nil
  then show ?case by simp
next
  case (Cons opts rest)
  from Cons.prems(2) obtain this1 where
    step: "addRule illFormedOpts this opts = Inr this1" and
    more: "addRules illFormedOpts this1 rest = Inr this'"
    by (auto split: sum.splits)
  from addRule_distinct[OF Cons.prems(1) step] have "distinct (map RHS (rules this1))" .
  from Cons.IH[OF this more] show ?case .
qed



text \<open>
  The claim as first stated fails in two places. A terminal rule that is given a
  semantic (as the rule for "mine" is) gets no penalty: its cost is \<open>0\<close>, not the
  semantic's cost. And the cost is the result of double arithmetic: the rule added to
  a symbol with thirteen rules gets a cost that is neither \<open>13 \<sqdot> 10\<^sup>-\<^sup>7\<close> nor the double
  nearest to it.
\<close>

theorem addRule_cost_counterexample:
  "addRule acceptAll \<lparr>name = ''[poss-user]'', rules = []\<rparr>
     ((plainOpts (RhsString ''mine'') True)
        \<lparr>opt_text := Some ''mine'',
         opt_semantic := Some \<lparr>sem_function = ''me'', sem_cost = Finite (1 / 2)\<rparr>\<rparr>)
   = Inr \<lparr>name = ''[poss-user]'',
          rules = [(plainRule [''mine''] True)
                     \<lparr>ruleText := Some (TextString ''mine''), cost := Finite 0\<rparr>]\<rparr>
   \<and> Finite 0 \<noteq> Finite (0 * (1 / 10 ^ 7) + 1 / 2)
   \<and> length (rules thirteenRules) = 13
   \<and> addRule acceptAll thirteenRules (plainOpts (RhsString ''n'') True)
      = Inr (thirteenRules\<lparr>rules := rules thirteenRules @
               [(plainRule [''n''] True)\<lparr>cost := Finite (3069538213865269 / 2 ^ 71)\<rparr>]\<rparr>)
   \<and> Finite (3069538213865269 / 2 ^ 71) \<noteq> Finite (13 * (1 / 10 ^ 7) + 0)
   \<and> Finite (3069538213865269 / 2 ^ 71) \<noteq> roundDouble (13 / 10 ^ 7)"
proof -
  have "addRule acceptAll \<lparr>name = ''[poss-user]'', rules = []\<rparr>
     ((plainOpts (RhsString ''mine'') True)
        \<lparr>opt_text := Some ''mine'',
         opt_semantic := Some \<lparr>sem_function = ''me'', sem_cost = Finite (1 / 2)\<rparr>\<rparr>)
   = Inr \<lparr>name = ''[poss-user]'',
          rules = [(plainRule [''mine''] True)
                     \<lparr>ruleText := Some (TextString ''mine''), cost := Finite 0\<rparr>]\<rparr>"
    by (simp add: addRule_def newRuleOf_def newTermRule_def ruleExists_def arraysMatch_def
        calcCost_def double_eval plainOpts_def plainRule_def acceptAll_def)
  moreover have "length (rules thirteenRules) = 13"
    by (simp add: thirteenRules_def)
  moreover have "addRule acceptAll thirteenRules (plainOpts (RhsString ''n'') True)
      = Inr (thirteenRules\<lparr>rules := rules thirteenRules @
               [(plainRule [''n''] True)\<lparr>cost := Finite (3069538213865269 / 2 ^ 71)\<rparr>]\<rparr>)"
    by (simp add: addRule_def newRuleOf_def newTermRule_def ruleExists_def arraysMatch_def
        calcCost_def double_eval thirteenRules_def plainOpts_def plainRule_def acceptAll_def)
  moreover have "Finite (3069538213865269 / 2 ^ 71) \<noteq> roundDouble (13 / 10 ^ 7)"
    by (simp add: double_eval)
  ultimately show ?thesis by simp
qed

text \<open>
  C6 (as amended). \<^verbatim>\<open>addRule\<close> ends with the duplicate-rule error exactly when the
  options pass the checks that come first (the \<^verbatim>\<open>RHS\<close> property, the schema, at most
  two RHS symbols, a transposition cost only on a binary rule), so that a rule object is
  built, and a rule of the symbol already has that rule's RHS sequence. After any
  sequence of successful \<^verbatim>\<open>addRule\<close> calls on a symbol whose rules had pairwise
  different RHS (a fresh symbol has none), the rules still have pairwise different RHS.
\<close>

theorem addRule_duplicate:
  "(addRule illFormedOpts this opts = Inl (RuleErr ''duplicate rule'') \<longleftrightarrow>
      (\<exists>newRule. newRuleOf illFormedOpts this opts = Inr newRule \<and>
         (\<exists>r \<in> set (rules this). RHS r = RHS newRule)))
   \<and> (distinct (map RHS (rules this)) \<longrightarrow>
        addRules illFormedOpts this optsList = Inr this' \<longrightarrow>
        distinct (map RHS (rules this')))"
proof (intro conjI impI)
  show "addRule illFormedOpts this opts = Inl (RuleErr ''duplicate rule'') \<longleftrightarrow>
      (\<exists>newRule. newRuleOf illFormedOpts this opts = Inr newRule \<and>
         (\<exists>r \<in> set (rules this). RHS r = RHS newRule))"
    using newRuleOf_not_duplicate_error[of illFormedOpts this opts]
    by (cases "newRuleOf illFormedOpts this opts") (auto simp: addRule_def ruleExists_iff)
next
  assume "distinct (map RHS (rules this))" "addRules illFormedOpts this optsList = Inr this'"
  then show "distinct (map RHS (rules this'))" by (rule addRules_distinct)
qed

theorem addRule_duplicate_witness:
  "addRule acceptAll \<lparr>name = ''[s]'', rules = [plainRule [''[a]''] False]\<rparr>
     (plainOpts (RhsSymbols [\<lparr>name = ''[a]'', rules = []\<rparr>]) False)
   = Inl (RuleErr ''duplicate rule'')
   \<and> addRules acceptAll \<lparr>name = ''[s]'', rules = []\<rparr>
       [plainOpts (RhsSymbols [\<lparr>name = ''[a]'', rules = []\<rparr>]) False,
        plainOpts (RhsString ''x'') True]
     = Inr \<lparr>name = ''[s]'',
            rules = [plainRule [''[a]''] False, (plainRule [''x''] True)\<lparr>cost := Finite (944473296573929 / 2 ^ 73)\<rparr>]\<rparr>
   \<and> distinct (map RHS [plainRule [''[a]''] False, (plainRule [''x''] True)\<lparr>cost := Finite (944473296573929 / 2 ^ 73)\<rparr>])"
proof -
  let ?sym = "\<lparr>name = ''[s]'', rules = [plainRule [''[a]''] False]\<rparr>"
  let ?fresh = "\<lparr>name = ''[s]'', rules = []\<rparr>"
  let ?optsA = "plainOpts (RhsSymbols [\<lparr>name = ''[a]'', rules = []\<rparr>]) False"
  let ?optsX = "plainOpts (RhsString ''x'') True"
  let ?sym' = "\<lparr>name = ''[s]'',
            rules = [plainRule [''[a]''] False, (plainRule [''x''] True)\<lparr>cost := Finite (944473296573929 / 2 ^ 73)\<rparr>]\<rparr>"
  have built: "\<exists>newRule. newRuleOf acceptAll ?sym ?optsA = Inr newRule \<and>
      (\<exists>r \<in> set (rules ?sym). RHS r = RHS newRule)"
    by (simp add: newRuleOf_def newNontermRule_def calcCost_def plainOpts_def plainRule_def
        acceptAll_def)
  have run: "addRules acceptAll ?fresh [?optsA, ?optsX] = Inr ?sym'"
    by (simp add: addRule_def newRuleOf_def newNontermRule_def newTermRule_def ruleExists_def
        arraysMatch_def calcCost_def double_eval plainOpts_def plainRule_def acceptAll_def)
  have fresh: "distinct (map RHS (rules ?fresh))" by simp
  from addRule_duplicate[of acceptAll ?sym ?optsA] built
    addRule_duplicate[of acceptAll ?fresh _ "[?optsA, ?optsX]" ?sym'] run fresh
  show ?thesis by simp
qed

text \<open>
  The claim as first stated fails where an earlier check ends \<^verbatim>\<open>addRule\<close>: the symbol
  already has a rule with RHS \<^verbatim>\<open>['[a]']\<close>, the new options name the same RHS and carry
  a transposition cost. Whether the schema check accepts or rejects the options, the
  error is not the duplicate-rule error.
\<close>

theorem addRule_duplicate_counterexample:
  "list_ex (\<lambda>r. RHS r = [''[a]'']) (rules \<lparr>name = ''[s]'', rules = [plainRule [''[a]''] False]\<rparr>)
   \<and> addRule acceptAll \<lparr>name = ''[s]'', rules = [plainRule [''[a]''] False]\<rparr>
       ((plainOpts (RhsSymbols [\<lparr>name = ''[a]'', rules = []\<rparr>]) False)
          \<lparr>opt_transpositionCost := Some (Finite 1)\<rparr>)
     = Inl (RuleErr ''nonterminal rules with transposition-costs must have 2 RHS symbols'')
   \<and> addRule rejectAll \<lparr>name = ''[s]'', rules = [plainRule [''[a]''] False]\<rparr>
       ((plainOpts (RhsSymbols [\<lparr>name = ''[a]'', rules = []\<rparr>]) False)
          \<lparr>opt_transpositionCost := Some (Finite 1)\<rparr>)
     = Inl IllFormedNonterminalRule"
  by (simp add: addRule_def newRuleOf_def newNontermRule_def plainOpts_def plainRule_def
      acceptAll_def rejectAll_def)

lemma symbolName_brackets:
  "hd (symbolName symNameChunks) = CHR ''['' \<and> last (symbolName symNameChunks) = CHR '']''"
  by (simp add: symbolName_def)

text \<open>
  C9. The constructor throws exactly when a name chunk is \<^verbatim>\<open>undefined\<close> or the joined,
  bracketed name is already a key of the grammar, and then the grammar is what it was.
  When it succeeds the name was not a key before, and the grammar differs only in
  mapping that name to a fresh empty rule list, which is also the symbol's rule list.
\<close>

theorem Symbol_atomic:
  "(isl (fst (Symbol grammar symNameChunks)) \<longleftrightarrow>
      None \<in> set symNameChunks \<or> grammar (symbolName symNameChunks) \<noteq> None)
   \<and> (isl (fst (Symbol grammar symNameChunks)) \<longrightarrow>
        snd (Symbol grammar symNameChunks) = grammar)
   \<and> (\<forall>this. fst (Symbol grammar symNameChunks) = Inr this \<longrightarrow>
        name this = symbolName symNameChunks \<and> rules this = [] \<and>
        grammar (name this) = None \<and>
        snd (Symbol grammar symNameChunks) = grammar(name this \<mapsto> []))"
  by (auto simp: Symbol_def Let_def)

theorem Symbol_atomic_witness:
  "isl (fst (Symbol [''[a-b]'' \<mapsto> [plainRule [''x''] True]] [Some ''a'', Some ''b'']))
   \<and> snd (Symbol [''[a-b]'' \<mapsto> [plainRule [''x''] True]] [Some ''a'', Some ''b''])
       = [''[a-b]'' \<mapsto> [plainRule [''x''] True]]
   \<and> isl (fst (Symbol Map.empty [Some ''a'', None]))
   \<and> snd (Symbol Map.empty [Some ''a'', None]) = Map.empty
   \<and> fst (Symbol [''[a-b]'' \<mapsto> [plainRule [''x''] True]] [Some ''c''])
       = Inr \<lparr>name = ''[c]'', rules = []\<rparr>
   \<and> snd (Symbol [''[a-b]'' \<mapsto> [plainRule [''x''] True]] [Some ''c''])
       = [''[a-b]'' \<mapsto> [plainRule [''x''] True], ''[c]'' \<mapsto> []]"
proof -
  let ?g = "[''[a-b]'' \<mapsto> [plainRule [''x''] True]]"
  have dup: "None \<in> set [Some ''a'', Some ''b''] \<or> ?g (symbolName [Some ''a'', Some ''b'']) \<noteq> None"
    by (simp add: symbolName_def)
  have undef: "None \<in> set [Some ''a'', None] \<or>
      (Map.empty :: grammar) (symbolName [Some ''a'', None]) \<noteq> None"
    by simp
  have ok: "fst (Symbol ?g [Some ''c'']) = Inr \<lparr>name = ''[c]'', rules = []\<rparr>"
    by (simp add: Symbol_def symbolName_def Let_def)
  from Symbol_atomic[of ?g "[Some ''a'', Some ''b'']"] dup
    Symbol_atomic[of Map.empty "[Some ''a'', None]"] undef
    Symbol_atomic[of ?g "[Some ''c'']"] ok
  show ?thesis by simp
qed

section \<open>Properties of tree reconstruction\<close>

lemma rulesToTree_leaf:
  "take 1 lhsSym \<noteq> ''['' \<Longrightarrow> rulesToTree lhsSym ruleRHSs = (Node lhsSym None, ruleRHSs)"
  by (simp add: rulesToTree.simps)

lemma rulesToTree_exhausted:
  "rulesToTree lhsSym [] = (Node lhsSym None, [])"
  by (simp add: rulesToTree.simps)

lemma rulesToTree_expand:
  "take 1 lhsSym = ''['' \<Longrightarrow>
   rulesToTree lhsSym (ruleRHS # rest) =
     (Node lhsSym (Some (fst (rulesToTrees ruleRHS rest))), snd (rulesToTrees ruleRHS rest))"
  by (simp add: rulesToTree.simps split: prod.splits)

text \<open>
  C10 (as amended). A symbol the constructor registers has a name that begins with
  \<^verbatim>\<open>[\<close> and ends with \<^verbatim>\<open>]\<close>. \<^verbatim>\<open>rulesToTree\<close> gives a node children exactly when its
  symbol's first character is \<^verbatim>\<open>[\<close> and an RHS is left in the array of rules; the node
  carries the symbol it was called with, and a symbol that does not begin with \<^verbatim>\<open>[\<close>
  becomes a leaf and leaves the array of rules as it was.
\<close>

theorem rulesToTree_expands:
  "(\<forall>this. fst (Symbol grammar symNameChunks) = Inr this \<longrightarrow>
      hd (name this) = CHR ''['' \<and> last (name this) = CHR '']'')
   \<and> (children (fst (rulesToTree lhsSym ruleRHSs)) \<noteq> None \<longleftrightarrow>
        take 1 lhsSym = ''['' \<and> ruleRHSs \<noteq> [])
   \<and> symbol (fst (rulesToTree lhsSym ruleRHSs)) = lhsSym
   \<and> (take 1 lhsSym \<noteq> ''['' \<longrightarrow> rulesToTree lhsSym ruleRHSs = (Node lhsSym None, ruleRHSs))"
proof (intro conjI allI impI)
  fix this
  assume "fst (Symbol grammar symNameChunks) = Inr this"
  then have "name this = symbolName symNameChunks"
    by (auto simp: Symbol_def Let_def split: if_splits)
  then show "hd (name this) = CHR ''[''" and "last (name this) = CHR '']''"
    by (simp_all add: symbolName_def)
next
  show "children (fst (rulesToTree lhsSym ruleRHSs)) \<noteq> None \<longleftrightarrow>
        take 1 lhsSym = ''['' \<and> ruleRHSs \<noteq> []"
    by (cases ruleRHSs) (auto simp: rulesToTree.simps split: prod.splits)
next
  show "symbol (fst (rulesToTree lhsSym ruleRHSs)) = lhsSym"
    by (cases ruleRHSs) (auto simp: rulesToTree.simps split: prod.splits)
next
  assume "take 1 lhsSym \<noteq> ''[''"
  then show "rulesToTree lhsSym ruleRHSs = (Node lhsSym None, ruleRHSs)"
    by (rule rulesToTree_leaf)
qed

theorem rulesToTree_expands_witness:
  "fst (Symbol Map.empty [Some ''S'']) = Inr \<lparr>name = ''[S]'', rules = []\<rparr>
   \<and> hd ''[S]'' = CHR ''['' \<and> last ''[S]'' = CHR '']''
   \<and> rulesToTree ''[S]'' [[''x'']] = (Node ''[S]'' (Some [Node ''x'' None]), [])
   \<and> rulesToTree ''x'' [[''[A]'']] = (Node ''x'' None, [[''[A]'']])"
proof -
  have made: "fst (Symbol Map.empty [Some ''S'']) = Inr \<lparr>name = ''[S]'', rules = []\<rparr>"
    by (simp add: Symbol_def symbolName_def Let_def)
  have terminal: "take 1 ''x'' \<noteq> ''[''" by simp
  have run: "rulesToTree ''[S]'' [[''x'']] = (Node ''[S]'' (Some [Node ''x'' None]), [])"
    by (simp add: rulesToTree.simps)
  from rulesToTree_expands[of Map.empty "[Some ''S'']" "''x''" "[[''[A]'']]"] made terminal run
  show ?thesis by simp
qed

text \<open>
  The claim as first stated fails for the last nonterminal symbol of a path: its first
  character is \<^verbatim>\<open>[\<close>, no RHS is left, and the node is a leaf.
\<close>

theorem rulesToTree_expands_counterexample:
  "take 1 ''[S]'' = ''['' \<and> rulesToTree ''[S]'' [] = (Node ''[S]'' None, [])
   \<and> children (fst (rulesToTree ''[S]'' [])) = None"
  by (simp add: rulesToTree.simps)


section \<open>Properties of the verb-set builder\<close>









section \<open>Properties of tree trimming\<close>

lemma swapped_simps [simp]:
  "swapped (Inl e) = Inl e" "swapped (Inr (a, b)) = Inr (b, a)"
  by (simp_all add: swapped_def)

lemma nodesEqual_eq:
  "nodesEqual a b = (a = b)"
  "length as = length bs \<Longrightarrow> nodesEqualLoop as bs = (as = bs)"
proof (induction a b and as bs rule: nodesEqual_nodesEqualLoop.induct)
  case (1 sa ca sb cb)
  then show ?case by (auto split: option.splits)
next
  case (2 a as b bs)
  then show ?case by auto
qed simp_all

lemma nodesEqual_sym: "nodesEqual a b = nodesEqual b a"
  by (auto simp: nodesEqual_eq)

lemma climb_no_parent:
  "par nodeObjA = None \<or> par nodeObjB = None \<Longrightarrow>
   climb deletedA deletedB nodeObjA nodeObjB = Inl TypeError"
  by (cases nodeObjA; cases nodeObjB; cases "par nodeObjA"; cases "par nodeObjB") auto

lemma climb_sym:
  "climb deletedB deletedA nodeObjB nodeObjA =
     swapped (climb deletedA deletedB nodeObjA nodeObjB)"
proof (induction deletedA deletedB nodeObjA nodeObjB rule: climb.induct)
  case (1 deletedA deletedB na pa parA nb pb parB)
  then show ?case
    using nodesEqual_sym[of "current deletedA parA" "current deletedB parB"] by simp
qed (simp_all add: climb_no_parent)

lemma diffTreesLoop_sym:
  "diffTreesLoop invertedTreeB invertedTreeA minTreeWidth n deletedB deletedA =
     swapped
       (diffTreesLoop invertedTreeA invertedTreeB minTreeWidth n deletedA deletedB)"
proof (induction invertedTreeA invertedTreeB minTreeWidth n deletedA deletedB
    rule: diffTreesLoop.induct)
  case (1 invertedTreeA invertedTreeB minTreeWidth n deletedA deletedB)
  show ?case
  proof (cases "n < minTreeWidth")
    case False
    then show ?thesis by (simp add: diffTreesLoop.simps)
  next
    case inRange: True
    show ?thesis
    proof (cases "elemAt invertedTreeA n")
      case None
      with inRange show ?thesis
        by (simp add: diffTreesLoop.simps[of invertedTreeA] diffTreesLoop.simps[of invertedTreeB]
            split: option.splits)
    next
      case a: (Some nodeObjA)
      show ?thesis
      proof (cases "elemAt invertedTreeB n")
        case None
        with inRange a show ?thesis
          by (simp add: diffTreesLoop.simps[of invertedTreeA] diffTreesLoop.simps[of invertedTreeB])
      next
        case b: (Some nodeObjB)
        show ?thesis
        proof (cases "climb deletedA deletedB nodeObjA nodeObjB")
          case (Inl e)
          with inRange a b climb_sym[of deletedB deletedA nodeObjB nodeObjA] show ?thesis
            by (simp add: diffTreesLoop.simps[of invertedTreeA] diffTreesLoop.simps[of invertedTreeB])
        next
          case (Inr pair)
          obtain nodeObjA1 nodeObjB1 where pair: "pair = (nodeObjA1, nodeObjB1)"
            by (cases pair)
          from Inr pair have c: "climb deletedA deletedB nodeObjA nodeObjB = Inr (nodeObjA1, nodeObjB1)"
            by simp
          with climb_sym[of deletedB deletedA nodeObjB nodeObjA]
          have c': "climb deletedB deletedA nodeObjB nodeObjA = Inr (nodeObjB1, nodeObjA1)"
            by simp
          from "1.IH"[OF inRange refl a b c refl] a b
          have "diffTreesLoop invertedTreeB invertedTreeA minTreeWidth (Suc n)
                  (pos nodeObjB1 # deletedB) (pos nodeObjA1 # deletedA) =
                swapped
                  (diffTreesLoop invertedTreeA invertedTreeB minTreeWidth (Suc n)
                    (pos nodeObjA1 # deletedA) (pos nodeObjB1 # deletedB))"
            by simp
          with inRange a b c c' show ?thesis
            by (simp add: diffTreesLoop.simps[of invertedTreeA invertedTreeB _ n]
                diffTreesLoop.simps[of invertedTreeB invertedTreeA _ n])
        qed
      qed
    qed
  qed
qed

text \<open>
  C4. For every two parse trees, \<^verbatim>\<open>diffTrees\<close> called with the trees in the other
  order ends the same way: it trims both trees to the same pair, in the other order, or
  throws the same exception.
\<close>

theorem diffTrees_symmetric:
  "diffTrees T2 T1 = swapped (diffTrees T1 T2)"
proof -
  have "min (length (invertTree T2)) (length (invertTree T1))
      = min (length (invertTree T1)) (length (invertTree T2))" by (rule min.commute)
  then show ?thesis
    using diffTreesLoop_sym[of "invertTree T2" "invertTree T1"
        "min (length (invertTree T1)) (length (invertTree T2))" 0 "[]" "[]"]
    by (cases "diffTreesLoop (invertTree T1) (invertTree T2)
          (min (length (invertTree T1)) (length (invertTree T2))) 0 [] []")
       (auto simp: diffTrees_def Let_def)
qed


theorem diffTrees_symmetric_witness:
  "diffTrees (Node ''[S]'' (Some [Node ''[A]'' (Some [Node ''[C]'' (Some [Node ''x'' None])])]))
             (Node ''[S]'' (Some [Node ''[B]'' (Some [Node ''[C]'' (Some [Node ''x'' None])])]))
   = Inr (Node ''[S]'' (Some [Node ''[A]'' (Some [Node ''[C]'' None])]),
          Node ''[S]'' (Some [Node ''[B]'' (Some [Node ''[C]'' None])]))
   \<and> diffTrees (Node ''[S]'' (Some [Node ''[B]'' (Some [Node ''[C]'' (Some [Node ''x'' None])])]))
               (Node ''[S]'' (Some [Node ''[A]'' (Some [Node ''[C]'' (Some [Node ''x'' None])])]))
   = Inr (Node ''[S]'' (Some [Node ''[B]'' (Some [Node ''[C]'' None])]),
          Node ''[S]'' (Some [Node ''[A]'' (Some [Node ''[C]'' None])]))"
proof -
  let ?T1 = "Node ''[S]'' (Some [Node ''[A]'' (Some [Node ''[C]'' (Some [Node ''x'' None])])])"
  let ?T2 = "Node ''[S]'' (Some [Node ''[B]'' (Some [Node ''[C]'' (Some [Node ''x'' None])])])"
  have run: "diffTrees ?T1 ?T2
      = Inr (Node ''[S]'' (Some [Node ''[A]'' (Some [Node ''[C]'' None])]),
             Node ''[S]'' (Some [Node ''[B]'' (Some [Node ''[C]'' None])]))"
    by code_simp
  from diffTrees_symmetric[of ?T2 ?T1] run show ?thesis by simp
qed


section \<open>Properties of path enumeration\<close>

lemma prev_initPath [simp]: "prev (initPath rule) = None"
  by (simp add: initPath_def Let_def)

lemma prev_expandPath [simp]: "prev (expandPath lastPath rule) = Some lastPath"
  by (simp add: expandPath_def Let_def split: symList.splits)

lemma symsCount_expandPath [simp]:
  "symsCount (expandPath lastPath rule) = symsCount lastPath + length (RHS rule)"
  by (simp add: expandPath_def Let_def split: symList.splits)

lemma validPath_unfold:
  "validPath grammar symsLimit rootRules p =
     (case prev p of
        None \<Rightarrow> list_ex (\<lambda>rule. nonEdit rule \<and> p = initPath rule) rootRules
      | Some lastPath \<Rightarrow>
          validPath grammar symsLimit rootRules lastPath \<and>
          truthy (nextSym lastPath) \<and>
          (prev lastPath = None \<or> symsCount lastPath < symsLimit) \<and>
          (case grammar (strOf (nextSym lastPath)) of
             None \<Rightarrow> False
           | Some ruleArr \<Rightarrow>
               list_ex (\<lambda>rule. nonEdit rule \<and> p = expandPath lastPath rule) ruleArr))"
  by (cases p; cases "prev p") auto

lemma pathsOf_addPath:
  "set (pathsOf (addPath pathSets newPath)) = insert newPath (set (pathsOf pathSets))"
  by (induction pathSets newPath rule: addPath.induct) (auto simp: pathsOf_def)

lemma fst_addPath:
  "set (map fst (addPath pathSets newPath)) = insert (terminals newPath) (set (map fst pathSets))"
  by (induction pathSets newPath rule: addPath.induct) auto

lemma wellFiled_addPath:
  "wellFiled pathSets \<Longrightarrow> wellFiled (addPath pathSets newPath)"
proof (induction pathSets newPath rule: addPath.induct)
  case (1 newPath)
  then show ?case by (simp add: wellFiled_def)
next
  case (2 t paths rest newPath)
  from "2.prems" have rest: "wellFiled rest" by (simp add: wellFiled_def)
  show ?case
  proof (cases "t = terminals newPath")
    case True
    with "2.prems" show ?thesis by (simp add: wellFiled_def)
  next
    case False
    from "2.IH"[OF False rest] have "wellFiled (addPath rest newPath)" .
    moreover from "2.prems" False have "t \<notin> set (map fst (addPath rest newPath))"
      unfolding fst_addPath by (simp add: wellFiled_def)
    ultimately show ?thesis using "2.prems" False by (simp add: wellFiled_def)
  qed
qed

lemma validPath_expandPath:
  assumes "expandable grammar symsLimit rootRules lastPath"
    "grammar (strOf (nextSym lastPath)) = Some ruleArr" "rule \<in> set ruleArr" "nonEdit rule"
  shows "validPath grammar symsLimit rootRules (expandPath lastPath rule)"
  using assms
  by (subst validPath_unfold) (auto simp: expandable_def list_ex_iff)

lemma tabInv_addPath:
  assumes "tabInv grammar symsLimit rootRules pathSets"
    "validPath grammar symsLimit rootRules newPath"
  shows "tabInv grammar symsLimit rootRules (addPath pathSets newPath)"
  using assms wellFiled_addPath[of pathSets newPath] pathsOf_addPath[of pathSets newPath]
  by (auto simp: tabInv_def list_all_iff)

lemma buildPaths_tabInv:
  "buildPaths grammar symsLimit pathSets lastPath = Inr pathSets' \<Longrightarrow>
   tabInv grammar symsLimit rootRules pathSets \<Longrightarrow>
   expandable grammar symsLimit rootRules lastPath \<Longrightarrow>
   tabInv grammar symsLimit rootRules pathSets'"
  "buildPathsLoop grammar symsLimit ruleArr pathSets lastPath = Inr pathSets' \<Longrightarrow>
   tabInv grammar symsLimit rootRules pathSets \<Longrightarrow>
   expandable grammar symsLimit rootRules lastPath \<Longrightarrow>
   grammar (strOf (nextSym lastPath)) = Some fullArr \<Longrightarrow> set ruleArr \<subseteq> set fullArr \<Longrightarrow>
   tabInv grammar symsLimit rootRules pathSets'"
proof (induction grammar symsLimit pathSets lastPath and grammar symsLimit ruleArr pathSets lastPath
    arbitrary: pathSets' and pathSets' fullArr rule: buildPaths_buildPathsLoop.induct)
  case (1 grammar symsLimit pathSets lastPath)
  from "1.prems"(1) obtain ruleArr where
    g: "grammar (strOf (nextSym lastPath)) = Some ruleArr" and
    run: "buildPathsLoop grammar symsLimit ruleArr pathSets lastPath = Inr pathSets'"
    by (auto simp: buildPaths.simps split: option.splits)
  from "1.IH"[OF g run "1.prems"(2,3) g] show ?case by simp
next
  case (2 grammar symsLimit pathSets lastPath)
  then show ?case by simp
next
  case (3 grammar symsLimit rule ruleArr pathSets lastPath)
  let ?newPath = "expandPath lastPath rule"
  let ?pathSets1 = "addPath pathSets ?newPath"
  from "3.prems"(5) have sub: "set ruleArr \<subseteq> set fullArr" and mem: "rule \<in> set fullArr" by auto
  show ?case
  proof (cases "nonEdit rule")
    case False
    with "3.prems"(1) have "buildPathsLoop grammar symsLimit ruleArr pathSets lastPath = Inr pathSets'"
      by simp
    from "3.IH"(4)[OF False this "3.prems"(2,3,4) sub] show ?thesis .
  next
    case ne: True
    from validPath_expandPath[OF "3.prems"(3,4) mem ne]
    have valid: "validPath grammar symsLimit rootRules ?newPath" .
    with "3.prems"(2) have inv1: "tabInv grammar symsLimit rootRules ?pathSets1"
      by (rule tabInv_addPath)
    show ?thesis
    proof (cases "truthy (nextSym ?newPath) \<and> symsCount ?newPath < symsLimit")
      case False
      with ne "3.prems"(1)
      have "buildPathsLoop grammar symsLimit ruleArr ?pathSets1 lastPath = Inr pathSets'"
        by (auto simp: Let_def)
      from "3.IH"(3)[OF ne refl refl False this inv1 "3.prems"(3,4) sub] show ?thesis .
    next
      case guard: True
      with ne "3.prems"(1) obtain pathSets2 where
        rec: "buildPaths grammar symsLimit ?pathSets1 ?newPath = Inr pathSets2" and
        rest: "buildPathsLoop grammar symsLimit ruleArr pathSets2 lastPath = Inr pathSets'"
        by (auto simp: Let_def split: sum.splits)
      from valid guard have "expandable grammar symsLimit rootRules ?newPath"
        by (simp add: expandable_def)
      from "3.IH"(1)[OF ne refl refl guard rec inv1 this]
      have inv2: "tabInv grammar symsLimit rootRules pathSets2" .
      from "3.IH"(2)[OF ne refl refl guard rec rest inv2 "3.prems"(3,4) sub] show ?thesis .
    qed
  qed
qed

lemma buildPaths_withoutEditRules:
  "buildPaths (withoutEditRules grammar) symsLimit pathSets lastPath =
     buildPaths grammar symsLimit pathSets lastPath"
  "buildPathsLoop (withoutEditRules grammar) symsLimit (filter nonEdit ruleArr) pathSets lastPath =
     buildPathsLoop grammar symsLimit ruleArr pathSets lastPath"
proof (induction grammar symsLimit pathSets lastPath and grammar symsLimit ruleArr pathSets lastPath
    rule: buildPaths_buildPathsLoop.induct)
  case (1 grammar symsLimit pathSets lastPath)
  show ?case
  proof (cases "grammar (strOf (nextSym lastPath))")
    case None
    then have "withoutEditRules grammar (strOf (nextSym lastPath)) = None"
      by (simp add: withoutEditRules_def)
    with None show ?thesis
      by (simp add: buildPaths.simps[of "withoutEditRules grammar"] buildPaths.simps[of grammar])
  next
    case (Some ruleArr)
    then have "withoutEditRules grammar (strOf (nextSym lastPath)) = Some (filter nonEdit ruleArr)"
      by (simp add: withoutEditRules_def)
    then have "buildPaths (withoutEditRules grammar) symsLimit pathSets lastPath =
        buildPathsLoop (withoutEditRules grammar) symsLimit (filter nonEdit ruleArr) pathSets lastPath"
      by (simp add: buildPaths.simps[of "withoutEditRules grammar"])
    moreover from Some have "buildPaths grammar symsLimit pathSets lastPath =
        buildPathsLoop grammar symsLimit ruleArr pathSets lastPath"
      by (simp add: buildPaths.simps[of grammar])
    ultimately show ?thesis using "1.IH"[OF Some] by simp
  qed
next
  case (2 grammar symsLimit pathSets lastPath)
  then show ?case by simp
next
  case (3 grammar symsLimit rule ruleArr pathSets lastPath)
  let ?newPath = "expandPath lastPath rule"
  let ?pathSets1 = "addPath pathSets ?newPath"
  show ?case
  proof (cases "nonEdit rule")
    case False
    with "3.IH"(4)[OF False] show ?thesis by simp
  next
    case ne: True
    show ?thesis
    proof (cases "truthy (nextSym ?newPath) \<and> symsCount ?newPath < symsLimit")
      case False
      with ne "3.IH"(3)[OF ne refl refl False] show ?thesis by (auto simp: Let_def)
    next
      case guard: True
      note same = "3.IH"(1)[OF ne refl refl guard]
      show ?thesis
      proof (cases "buildPaths grammar symsLimit ?pathSets1 ?newPath")
        case (Inl e)
        with ne guard same show ?thesis by (simp add: Let_def)
      next
        case (Inr pathSets2)
        with ne guard same "3.IH"(2)[OF ne refl refl guard Inr] show ?thesis
          by (simp add: Let_def)
      qed
    qed
  qed
qed

lemma expandKeys_withoutEditRules:
  "expandKeys (withoutEditRules grammar) symsLimit terms pathSets =
     expandKeys grammar symsLimit terms pathSets"
  by (induction terms arbitrary: pathSets)
     (auto simp: buildPaths_withoutEditRules(1) split: option.splits list.splits sum.splits)

lemma expandTab_withoutEditRules:
  "expandTab (withoutEditRules grammar) symsLimit pathTab = expandTab grammar symsLimit pathTab"
  by (induction pathTab) (auto simp: expandKeys_withoutEditRules split: sum.splits)

lemma initPathTab_filter: "initPathTab (filter nonEdit ruleArr) = initPathTab ruleArr"
  by (simp add: initPathTab_def)

lemma searchPaths_withoutEditRules:
  "searchPaths (withoutEditRules grammar) opts nontermSym = searchPaths grammar opts nontermSym"
proof -
  have "withoutEditRules grammar nontermSym = map_option (filter nonEdit) (grammar nontermSym)"
    by (simp add: withoutEditRules_def)
  then show ?thesis
    by (cases "grammar nontermSym")
       (simp_all add: searchPaths_def initPathTab_filter expandTab_withoutEditRules Let_def)
qed

lemma initial_tabInv:
  assumes "rule \<in> set rootRules" "nonEdit rule"
  shows "tabInv grammar symsLimit rootRules [(terminals (initPath rule), [initPath rule])]"
    and "validPath grammar symsLimit rootRules (initPath rule)"
proof -
  show v: "validPath grammar symsLimit rootRules (initPath rule)"
    using assms by (subst validPath_unfold) (auto simp: list_ex_iff)
  then show "tabInv grammar symsLimit rootRules [(terminals (initPath rule), [initPath rule])]"
    by (simp add: tabInv_def wellFiled_def pathsOf_def)
qed

lemma expandKeys_initial:
  assumes "expandKeys grammar symsLimit (map fst [(terminals (initPath rule), [initPath rule])])
             [(terminals (initPath rule), [initPath rule])] = Inr pathSets'"
    "rule \<in> set rootRules" "nonEdit rule"
  shows "tabInv grammar symsLimit rootRules pathSets'"
proof (cases "truthy (nextSym (initPath rule))")
  case False
  with assms(1) initial_tabInv(1)[OF assms(2,3)] show ?thesis by simp
next
  case True
  with assms(1) have run: "buildPaths grammar symsLimit
      [(terminals (initPath rule), [initPath rule])] (initPath rule) = Inr pathSets'"
    by (simp split: sum.splits)
  from True initial_tabInv(2)[OF assms(2,3)]
  have "expandable grammar symsLimit rootRules (initPath rule)"
    by (simp add: expandable_def)
  from buildPaths_tabInv(1)[OF run initial_tabInv(1)[OF assms(2,3)] this] show ?thesis .
qed

lemma expandTab_tabInv:
  assumes "expandTab grammar symsLimit (map (\<lambda>rule. [(terminals (initPath rule), [initPath rule])]) rs)
             = Inr pathTab"
    "set rs \<subseteq> set rootRules" "list_all nonEdit rs"
  shows "list_all (tabInv grammar symsLimit rootRules) pathTab \<and> length pathTab = length rs"
  using assms
proof (induction rs arbitrary: pathTab)
  case Nil
  then show ?case by simp
next
  case (Cons rule rs)
  from Cons.prems(1) obtain pathSets1 rest1 where
    first: "expandKeys grammar symsLimit (map fst [(terminals (initPath rule), [initPath rule])])
             [(terminals (initPath rule), [initPath rule])] = Inr pathSets1" and
    rest: "expandTab grammar symsLimit
             (map (\<lambda>rule. [(terminals (initPath rule), [initPath rule])]) rs) = Inr rest1" and
    tab: "pathTab = pathSets1 # rest1"
    by (auto split: sum.splits)
  from Cons.prems(2,3) have "rule \<in> set rootRules" "nonEdit rule" by auto
  from expandKeys_initial[OF first this] have "tabInv grammar symsLimit rootRules pathSets1" .
  moreover from Cons.IH[OF rest] Cons.prems(2,3)
  have "list_all (tabInv grammar symsLimit rootRules) rest1 \<and> length rest1 = length rs" by auto
  ultimately show ?case by (simp add: tab)
qed

lemma pathTab_tabInv:
  assumes "expandTab grammar symsLimit (initPathTab ruleArr) = Inr pathTab"
  shows "list_all (tabInv grammar symsLimit ruleArr) pathTab"
    and "length pathTab = length (filter nonEdit ruleArr)"
  using expandTab_tabInv[of grammar symsLimit "filter nonEdit ruleArr" pathTab ruleArr] assms
  by (auto simp: initPathTab_def list_all_iff)


text \<open>
  C2. Edit rules (a rule with \<^verbatim>\<open>insertionIdx\<close> defined or \<^verbatim>\<open>transposition\<close> set)
  never start and never extend a path. What \<^verbatim>\<open>searchPaths\<close> does for a symbol is what it
  does on the grammar with all edit rules deleted; the table of paths it builds is the
  one it builds from that grammar; and every path in the table was built, from an initial
  path of a non-edit root rule on, by non-edit rules only.
\<close>

theorem edit_rules_excluded:
  "searchPaths (withoutEditRules grammar) opts nontermSym = searchPaths grammar opts nontermSym
   \<and> (\<forall>ruleArr pathTab.
        grammar nontermSym = Some ruleArr \<longrightarrow>
        expandTab grammar symsLimit (initPathTab ruleArr) = Inr pathTab \<longrightarrow>
        expandTab (withoutEditRules grammar) symsLimit (initPathTab (filter nonEdit ruleArr))
          = Inr pathTab \<and>
        (\<forall>pathSets \<in> set pathTab. \<forall>p \<in> set (pathsOf pathSets).
           validPath grammar symsLimit ruleArr p))"
proof (intro conjI allI impI)
  show "searchPaths (withoutEditRules grammar) opts nontermSym = searchPaths grammar opts nontermSym"
    by (rule searchPaths_withoutEditRules)
next
  fix ruleArr pathTab
  assume "grammar nontermSym = Some ruleArr"
    and run: "expandTab grammar symsLimit (initPathTab ruleArr) = Inr pathTab"
  then show "expandTab (withoutEditRules grammar) symsLimit (initPathTab (filter nonEdit ruleArr))
      = Inr pathTab"
    by (simp add: expandTab_withoutEditRules initPathTab_filter)
  from pathTab_tabInv(1)[OF run]
  show "\<forall>pathSets \<in> set pathTab. \<forall>p \<in> set (pathsOf pathSets).
      validPath grammar symsLimit ruleArr p"
    by (auto simp: list_all_iff tabInv_def)
qed


theorem edit_rules_excluded_witness:
  "(\<exists>ruleArr pathTab.
      map_of editRulesGrammar ''[S]'' = Some ruleArr
      \<and> length (filter nonEdit ruleArr) = 2 \<and> length ruleArr = 3
      \<and> expandTab (map_of editRulesGrammar) 5 (initPathTab ruleArr) = Inr pathTab
      \<and> expandTab (withoutEditRules (map_of editRulesGrammar)) 5
            (initPathTab (filter nonEdit ruleArr)) = Inr pathTab
      \<and> list_all (\<lambda>pathSets. list_all (validPath (map_of editRulesGrammar) 5 ruleArr)
            (pathsOf pathSets)) pathTab)
   \<and> searchPaths (withoutEditRules (map_of editRulesGrammar)) exampleOpts ''[S]''
       = searchPaths (map_of editRulesGrammar) exampleOpts ''[S]''"
proof -
  let ?g = "map_of editRulesGrammar"
  obtain ruleArr where g: "?g ''[S]'' = Some ruleArr"
    and n: "length (filter nonEdit ruleArr) = 2" "length ruleArr = 3"
    by (simp add: editRulesGrammar_def nonEdit_def plainRule_def)
  have "\<not> isl (expandTab ?g 5 (initPathTab (the (?g ''[S]''))))" by code_simp
  with g obtain pathTab where run: "expandTab ?g 5 (initPathTab ruleArr) = Inr pathTab"
    by (cases "expandTab ?g 5 (initPathTab ruleArr)") auto
  note excluded = edit_rules_excluded[of ?g exampleOpts "''[S]''" 5]
  from excluded g run have
    "expandTab (withoutEditRules ?g) 5 (initPathTab (filter nonEdit ruleArr)) = Inr pathTab"
    "\<forall>pathSets \<in> set pathTab. \<forall>p \<in> set (pathsOf pathSets). validPath ?g 5 ruleArr p"
    by blast+
  with g n run excluded show ?thesis by (auto simp: list_all_iff)
qed




section \<open>Properties of the search for ambiguity\<close>

text \<open>
  The log is only ever extended, so the contract \<open>searched\<close> composes along the loops.
\<close>

lemma listsEqual_symsOf: "listsEqual x y \<longleftrightarrow> symsOf x = symsOf y"
  by (induction x y rule: listsEqual.induct) auto

lemma searched_refl: "searched opts {} [] st st"
  by (simp add: searched_def)

lemma searched_none: "searched opts {{}} [] st st"
  by (simp add: searched_def)

lemma searched_union:
  assumes "searched opts G1 fl1 st st1" "searched opts G2 fl2 st1 st2"
  shows "searched opts (G1 \<union> G2) (fl1 @ fl2) st st2"
proof -
  from assms(1) have a:
    "flagged st1 = flagged st @ fl1" "set fl1 \<subseteq> \<Union>G1"
    "\<And>M. M \<in> G1 \<Longrightarrow> M \<noteq> {} \<Longrightarrow> set fl1 \<inter> M \<noteq> {}"
    "opt_findAll opts \<and> \<not> opt_noOutput opts \<Longrightarrow> set fl1 = \<Union>G1"
    "foundAmbiguity st1 = (foundAmbiguity st \<or> fl1 \<noteq> [])"
    "testErrors st1 = testErrors st"
    unfolding searched_def by blast+
  from assms(2) have b:
    "flagged st2 = flagged st1 @ fl2" "set fl2 \<subseteq> \<Union>G2"
    "\<And>M. M \<in> G2 \<Longrightarrow> M \<noteq> {} \<Longrightarrow> set fl2 \<inter> M \<noteq> {}"
    "opt_findAll opts \<and> \<not> opt_noOutput opts \<Longrightarrow> set fl2 = \<Union>G2"
    "foundAmbiguity st2 = (foundAmbiguity st1 \<or> fl2 \<noteq> [])"
    "testErrors st2 = testErrors st1"
    unfolding searched_def by blast+
  show ?thesis
    unfolding searched_def
  proof (intro conjI ballI impI)
    show "flagged st2 = flagged st @ fl1 @ fl2" by (simp add: a(1) b(1))
    show "set (fl1 @ fl2) \<subseteq> \<Union>(G1 \<union> G2)" using a(2) b(2) by auto
    show "foundAmbiguity st2 = (foundAmbiguity st \<or> fl1 @ fl2 \<noteq> [])"
      by (simp add: a(5) b(5))
    show "testErrors st2 = testErrors st" by (simp add: a(6) b(6))
  next
    fix M assume "M \<in> G1 \<union> G2" "M \<noteq> {}"
    then consider "M \<in> G1" | "M \<in> G2" by blast
    then show "set (fl1 @ fl2) \<inter> M \<noteq> {}"
    proof cases
      case 1
      from a(3)[OF 1 \<open>M \<noteq> {}\<close>] show ?thesis by auto
    next
      case 2
      from b(3)[OF 2 \<open>M \<noteq> {}\<close>] show ?thesis by auto
    qed
  next
    assume "opt_findAll opts \<and> \<not> opt_noOutput opts"
    from a(4)[OF this] b(4)[OF this] show "set (fl1 @ fl2) = \<Union>(G1 \<union> G2)" by auto
  qed
qed

lemma searched_merge:
  assumes "searched opts G fl st st'"
  shows "searched opts {\<Union>G} fl st st'"
proof -
  from assms have a:
    "flagged st' = flagged st @ fl" "set fl \<subseteq> \<Union>G"
    "\<And>M. M \<in> G \<Longrightarrow> M \<noteq> {} \<Longrightarrow> set fl \<inter> M \<noteq> {}"
    "opt_findAll opts \<and> \<not> opt_noOutput opts \<Longrightarrow> set fl = \<Union>G"
    "foundAmbiguity st' = (foundAmbiguity st \<or> fl \<noteq> [])"
    "testErrors st' = testErrors st"
    unfolding searched_def by blast+
  show ?thesis
    unfolding searched_def
  proof (intro conjI ballI impI)
    show "flagged st' = flagged st @ fl" by (rule a(1))
    show "set fl \<subseteq> \<Union>{\<Union>G}" using a(2) by simp
    show "foundAmbiguity st' = (foundAmbiguity st \<or> fl \<noteq> [])" by (rule a(5))
    show "testErrors st' = testErrors st" by (rule a(6))
  next
    fix M assume "M \<in> {\<Union>G}" "M \<noteq> {}"
    then obtain N where "N \<in> G" "N \<noteq> {}" and M: "M = \<Union>G" by auto
    from a(3)[OF this(1,2)] \<open>N \<in> G\<close> show "set fl \<inter> M \<noteq> {}" unfolding M by blast
  next
    assume "opt_findAll opts \<and> \<not> opt_noOutput opts"
    from a(4)[OF this] show "set fl = \<Union>{\<Union>G}" by simp
  qed
qed

lemma searched_stop:
  assumes "searched opts G fl st st'" "fl \<noteq> []" "\<not> (opt_findAll opts \<and> \<not> opt_noOutput opts)"
    "\<Union>G \<subseteq> M"
  shows "searched opts {M} fl st st'"
proof -
  from assms(1) have a:
    "flagged st' = flagged st @ fl" "set fl \<subseteq> \<Union>G"
    "foundAmbiguity st' = (foundAmbiguity st \<or> fl \<noteq> [])"
    "testErrors st' = testErrors st"
    unfolding searched_def by blast+
  from assms(2) obtain x where x: "x \<in> set fl" by (cases fl) auto
  show ?thesis
    unfolding searched_def
  proof (intro conjI ballI impI)
    show "flagged st' = flagged st @ fl" by (rule a(1))
    show "set fl \<subseteq> \<Union>{M}" using a(2) assms(4) by auto
    show "foundAmbiguity st' = (foundAmbiguity st \<or> fl \<noteq> [])" by (rule a(3))
    show "testErrors st' = testErrors st" by (rule a(4))
  next
    fix N assume "N \<in> {M}" "N \<noteq> {}"
    with x a(2) assms(4) show "set fl \<inter> N \<noteq> {}" by auto
  next
    assume "opt_findAll opts \<and> \<not> opt_noOutput opts"
    with assms(3) show "set fl = \<Union>{M}" by simp
  qed
qed

lemma searched_flag:
  "searched opts {{(pathA, pathB)}} [(pathA, pathB)] st
     (st\<lparr>foundAmbiguity := True, flagged := flagged st @ [(pathA, pathB)]\<rparr>)"
  by (simp add: searched_def)

lemma searched_cong:
  "searched opts G fl st st' \<Longrightarrow> flagged st'' = flagged st' \<Longrightarrow>
   foundAmbiguity st'' = foundAmbiguity st' \<Longrightarrow> testErrors st'' = testErrors st' \<Longrightarrow>
   searched opts G fl st st''"
  by (simp add: searched_def)

lemma searched_cong0:
  "searched opts G fl st st' \<Longrightarrow> flagged st0 = flagged st \<Longrightarrow>
   foundAmbiguity st0 = foundAmbiguity st \<Longrightarrow> testErrors st0 = testErrors st \<Longrightarrow>
   searched opts G fl st0 st'"
  by (simp add: searched_def)

lemma matchesB_Cons:
  "matchesB pathA (pathB # pathsB) =
     (if pathsMatch pathA pathB then {(pathA, pathB)} else {}) \<union> matchesB pathA pathsB"
  by (auto simp: matchesB_def)

lemma matchesA_Cons:
  "matchesA (pathA # pathsA) pathsB = matchesB pathA pathsB \<union> matchesA pathsA pathsB"
  by (auto simp: matchesA_def matchesB_def)

text \<open>
  The five loops, innermost first. A loop left by \<^verbatim>\<open>break\<close> has flagged a pair, and
  is left only when a single instance per pair of root rules is asked for.
\<close>

lemma comparePathsB_searched:
  "comparePathsB opts nontermSym pathA pathsB st = Inr (st', stopped) \<Longrightarrow>
   \<exists>fl. searched opts {matchesB pathA pathsB} fl st st' \<and>
        (stopped \<longrightarrow> fl \<noteq> [] \<and> \<not> (opt_findAll opts \<and> \<not> opt_noOutput opts))"
proof (induction opts nontermSym pathA pathsB st arbitrary: st' stopped rule: comparePathsB.induct)
  case (1 opts nontermSym pathA st)
  then show ?case using searched_none[of opts st] by (auto simp: matchesB_def)
next
  case (2 opts nontermSym pathA pathB pathsB st)
  let ?st1 = "st\<lparr>foundAmbiguity := True, flagged := flagged st @ [(pathA, pathB)]\<rparr>"
  show ?case
  proof (cases "pathsMatch pathA pathB")
    case False
    then have nomatch: "\<not> (nextSym pathB = nextSym pathA \<and> listsEqual (nextSyms pathB) (nextSyms pathA))"
      by (simp add: pathsMatch_def)
    with "2.prems" have "comparePathsB opts nontermSym pathA pathsB st = Inr (st', stopped)"
      by simp
    from "2.IH"(3)[OF nomatch this] False show ?thesis by (simp add: matchesB_Cons)
  next
    case True
    then have match: "nextSym pathB = nextSym pathA \<and> listsEqual (nextSyms pathB) (nextSyms pathA)"
      by (simp add: pathsMatch_def)
    have M: "matchesB pathA (pathB # pathsB) = {(pathA, pathB)} \<union> matchesB pathA pathsB"
      using True by (simp add: matchesB_Cons)
    have flag: "searched opts {{(pathA, pathB)}} [(pathA, pathB)] st ?st1"
      by (rule searched_flag)
    show ?thesis
    proof (cases "opt_noOutput opts")
      case True
      with match "2.prems" have res: "st' = ?st1" "stopped" by (auto simp: Let_def)
      from True have "\<not> (opt_findAll opts \<and> \<not> opt_noOutput opts)" by simp
      from searched_stop[OF flag _ this, of "matchesB pathA (pathB # pathsB)"] M True res
      show ?thesis by auto
    next
      case printing: False
      from match printing "2.prems" obtain treeA treeB where
        trees: "diffTrees (fst (rulesToTree nontermSym (listToArray pathA)))
                  (fst (rulesToTree nontermSym (listToArray pathB))) = Inr (treeA, treeB)"
        by (auto simp: Let_def split: sum.splits)
      let ?st2 = "?st1\<lparr>printed := printed ?st1 @ [(treeA, treeB)]\<rparr>"
      let ?st3 = "?st2\<lparr>ambigPairs := ambigPairs ?st2 @ [(treeA, treeB)]\<rparr>"
      show ?thesis
      proof (cases "opt_findAll opts")
        case False
        with match printing trees "2.prems" have res: "st' = ?st2" "stopped"
          by (auto simp: Let_def)
        from flag have "searched opts {{(pathA, pathB)}} [(pathA, pathB)] st ?st2"
          by (rule searched_cong) simp_all
        moreover from False have "\<not> (opt_findAll opts \<and> \<not> opt_noOutput opts)" by simp
        ultimately have "searched opts {matchesB pathA (pathB # pathsB)} [(pathA, pathB)] st ?st2"
          using M by (intro searched_stop) auto
        with res False show ?thesis by auto
      next
        case all: True
        show ?thesis
        proof (cases "pairExists (ambigPairs ?st1) treeA treeB")
          case seen: True
          with match printing trees all "2.prems"
          have rest: "comparePathsB opts nontermSym pathA pathsB ?st1 = Inr (st', stopped)"
            by (auto simp: Let_def)
          from seen all have cond: "\<not> (\<not> opt_findAll opts \<or> \<not> pairExists (ambigPairs ?st1) treeA treeB)"
            by simp
          from "2.IH"(2)[OF match refl printing trees refl cond rest]
          obtain fl where
            s: "searched opts {matchesB pathA pathsB} fl ?st1 st'" and
            t: "stopped \<longrightarrow> fl \<noteq> [] \<and> \<not> (opt_findAll opts \<and> \<not> opt_noOutput opts)" by blast
          from searched_merge[OF searched_union[OF flag s]] M
          have "searched opts {matchesB pathA (pathB # pathsB)} ([(pathA, pathB)] @ fl) st st'"
            by simp
          with t all printing show ?thesis by blast
        next
          case new: False
          with match printing trees all "2.prems"
          have rest: "comparePathsB opts nontermSym pathA pathsB ?st3 = Inr (st', stopped)"
            by (auto simp: Let_def)
          from new have cond: "\<not> opt_findAll opts \<or> \<not> pairExists (ambigPairs ?st1) treeA treeB"
            by simp
          from "2.IH"(1)[OF match refl printing trees refl cond refl all rest]
          obtain fl where
            s: "searched opts {matchesB pathA pathsB} fl ?st3 st'" and
            t: "stopped \<longrightarrow> fl \<noteq> [] \<and> \<not> (opt_findAll opts \<and> \<not> opt_noOutput opts)" by blast
          from s have "searched opts {matchesB pathA pathsB} fl ?st1 st'"
            by (rule searched_cong0) simp_all
          from searched_merge[OF searched_union[OF flag this]] M
          have "searched opts {matchesB pathA (pathB # pathsB)} ([(pathA, pathB)] @ fl) st st'"
            by simp
          with t all printing show ?thesis by blast
        qed
      qed
    qed
  qed
qed

lemma comparePathsA_searched:
  "comparePathsA opts nontermSym pathsA pathsB st = Inr (st', stopped) \<Longrightarrow>
   \<exists>fl. searched opts {matchesA pathsA pathsB} fl st st' \<and>
        (stopped \<longrightarrow> fl \<noteq> [] \<and> \<not> (opt_findAll opts \<and> \<not> opt_noOutput opts))"
proof (induction pathsA arbitrary: st st' stopped)
  case Nil
  then show ?case using searched_none[of opts st] by (auto simp: matchesA_def)
next
  case (Cons pathA pathsA)
  from Cons.prems obtain st1 stopped1 where
    first: "comparePathsB opts nontermSym pathA pathsB st = Inr (st1, stopped1)"
    by (auto split: sum.splits)
  from comparePathsB_searched[OF first] obtain fl1 where
    s1: "searched opts {matchesB pathA pathsB} fl1 st st1" and
    t1: "stopped1 \<longrightarrow> fl1 \<noteq> [] \<and> \<not> (opt_findAll opts \<and> \<not> opt_noOutput opts)" by blast
  show ?case
  proof (cases stopped1)
    case True
    with Cons.prems first have res: "st' = st1" "stopped" by auto
    from True t1 have "fl1 \<noteq> []" "\<not> (opt_findAll opts \<and> \<not> opt_noOutput opts)" by auto
    from searched_stop[OF s1 this, of "matchesA (pathA # pathsA) pathsB"]
    have "searched opts {matchesA (pathA # pathsA) pathsB} fl1 st st1"
      by (simp add: matchesA_Cons)
    with res True t1 show ?thesis by blast
  next
    case False
    with Cons.prems first
    have rest: "comparePathsA opts nontermSym pathsA pathsB st1 = Inr (st', stopped)" by auto
    from Cons.IH[OF rest] obtain fl2 where
      s2: "searched opts {matchesA pathsA pathsB} fl2 st1 st'" and
      t2: "stopped \<longrightarrow> fl2 \<noteq> [] \<and> \<not> (opt_findAll opts \<and> \<not> opt_noOutput opts)" by blast
    from searched_merge[OF searched_union[OF s1 s2]]
    have "searched opts {matchesA (pathA # pathsA) pathsB} (fl1 @ fl2) st st'"
      by (simp add: matchesA_Cons Un_commute)
    with t2 show ?thesis by (intro exI[of _ "fl1 @ fl2"]) simp
  qed
qed

lemma matchesT_Nil: "matchesT [] pathSetsB = {}"
  by (simp add: matchesT_def)

lemma matchesT_Cons:
  "matchesT ((t, pathsA) # pathSetsA) pathSetsB =
     (case map_of pathSetsB t of None \<Rightarrow> {} | Some pathsB \<Rightarrow> matchesA pathsA pathsB)
     \<union> matchesT pathSetsA pathSetsB"
  by (auto simp: matchesT_def matchesA_def split: option.splits)

lemma matchesA_sort: "matchesA (sort_key f pathsA) pathsB = matchesA pathsA pathsB"
  by (simp add: matchesA_def)

lemma compareTerminals_searched:
  "compareTerminals opts nontermSym pathSetsA pathSetsB st = Inr st' \<Longrightarrow>
   \<exists>fl. searched opts {matchesT pathSetsA pathSetsB} fl st st'"
proof (induction pathSetsA arbitrary: st st')
  case Nil
  then show ?case using searched_none[of opts st] by (auto simp: matchesT_Nil)
next
  case (Cons entry pathSetsA)
  obtain t pathsA where entry: "entry = (t, pathsA)" by (cases entry)
  show ?case
  proof (cases "map_of pathSetsB t")
    case None
    with Cons.prems entry
    have "compareTerminals opts nontermSym pathSetsA pathSetsB st = Inr st'" by simp
    from Cons.IH[OF this] None entry show ?thesis by (simp add: matchesT_Cons)
  next
    case (Some pathsB)
    from Cons.prems entry Some obtain st1 stopped1 where
      first: "comparePathsA opts nontermSym (sort_key symsCount pathsA) pathsB st
                = Inr (st1, stopped1)"
      by (auto split: sum.splits)
    from comparePathsA_searched[OF first] obtain fl1 where
      s1: "searched opts {matchesA pathsA pathsB} fl1 st st1" and
      t1: "stopped1 \<longrightarrow> fl1 \<noteq> [] \<and> \<not> (opt_findAll opts \<and> \<not> opt_noOutput opts)"
      unfolding matchesA_sort by blast
    have M: "matchesT (entry # pathSetsA) pathSetsB =
        matchesA pathsA pathsB \<union> matchesT pathSetsA pathSetsB"
      using Some entry by (simp add: matchesT_Cons)
    show ?thesis
    proof (cases stopped1)
      case True
      with Cons.prems entry Some first have res: "st' = st1" by simp
      from True t1 have "fl1 \<noteq> []" "\<not> (opt_findAll opts \<and> \<not> opt_noOutput opts)" by auto
      from searched_stop[OF s1 this, of "matchesT (entry # pathSetsA) pathSetsB"] M res
      show ?thesis by auto
    next
      case False
      with Cons.prems entry Some first
      have "compareTerminals opts nontermSym pathSetsA pathSetsB st1 = Inr st'" by simp
      from Cons.IH[OF this] obtain fl2 where
        s2: "searched opts {matchesT pathSetsA pathSetsB} fl2 st1 st'" by blast
      from searched_merge[OF searched_union[OF s1 s2]] M
      show ?thesis by (intro exI[of _ "fl1 @ fl2"]) (simp add: Un_commute)
    qed
  qed
qed

lemma compareRootRulesB_searched:
  "compareRootRulesB opts nontermSym pathSetsA pathTab st = Inr st' \<Longrightarrow>
   \<exists>fl. searched opts (matchesT pathSetsA ` set pathTab) fl st st'"
proof (induction pathTab arbitrary: st st')
  case Nil
  then show ?case using searched_refl[of opts st] by auto
next
  case (Cons pathSetsB pathTab)
  from Cons.prems obtain st1 where
    first: "compareTerminals opts nontermSym pathSetsA pathSetsB st = Inr st1" and
    rest: "compareRootRulesB opts nontermSym pathSetsA pathTab st1 = Inr st'"
    by (auto split: sum.splits)
  from compareTerminals_searched[OF first] obtain fl1 where
    s1: "searched opts {matchesT pathSetsA pathSetsB} fl1 st st1" by blast
  from Cons.IH[OF rest] obtain fl2 where
    s2: "searched opts (matchesT pathSetsA ` set pathTab) fl2 st1 st'" by blast
  from searched_union[OF s1 s2] show ?case by (intro exI[of _ "fl1 @ fl2"]) simp
qed

lemma compareRootRulesA_searched:
  "compareRootRulesA opts nontermSym pathTab st = Inr st' \<Longrightarrow>
   \<exists>fl. searched opts ((\<lambda>(pathSetsA, pathSetsB). matchesT pathSetsA pathSetsB) `
                         set (rootPairs pathTab)) fl st st'"
proof (induction pathTab arbitrary: st st')
  case Nil
  then show ?case using searched_refl[of opts st] by auto
next
  case (Cons pathSetsA pathTab)
  from Cons.prems obtain st1 where
    first: "compareRootRulesB opts nontermSym pathSetsA pathTab st = Inr st1" and
    rest: "compareRootRulesA opts nontermSym pathTab st1 = Inr st'"
    by (auto split: sum.splits)
  from compareRootRulesB_searched[OF first] obtain fl1 where
    s1: "searched opts (matchesT pathSetsA ` set pathTab) fl1 st st1" by blast
  from Cons.IH[OF rest] obtain fl2 where
    s2: "searched opts ((\<lambda>(pathSetsA, pathSetsB). matchesT pathSetsA pathSetsB) `
                         set (rootPairs pathTab)) fl2 st1 st'" by blast
  have "(\<lambda>(pathSetsA, pathSetsB). matchesT pathSetsA pathSetsB) `
          set (rootPairs (pathSetsA # pathTab)) =
        matchesT pathSetsA ` set pathTab \<union>
        (\<lambda>(pathSetsA, pathSetsB). matchesT pathSetsA pathSetsB) ` set (rootPairs pathTab)"
    by (simp add: image_Un image_image)
  with searched_union[OF s1 s2] show ?case by (intro exI[of _ "fl1 @ fl2"]) simp
qed

lemma findAmbiguity_searched:
  assumes "findAmbiguity opts nontermSym pathTab = Inr out"
  shows "\<exists>st. searched opts ((\<lambda>(pathSetsA, pathSetsB). matchesT pathSetsA pathSetsB) `
                  set (rootPairs pathTab)) (flagged out) emptyLog st \<and>
          foundAmbiguity out = foundAmbiguity st \<and>
          testErrors out =
            (if \<not> foundAmbiguity st \<and> opt_useTestRules opts \<and> indexOf nontermSym ''ambig'' = 1
             then [nontermSym] else [])"
proof -
  from assms obtain st where
    run: "compareRootRulesA opts nontermSym pathTab emptyLog = Inr st" and
    out: "out = (if \<not> foundAmbiguity st \<and> opt_useTestRules opts \<and>
                     indexOf nontermSym ''ambig'' = 1
                 then st\<lparr>testErrors := testErrors st @ [nontermSym]\<rparr> else st)"
    by (auto simp: findAmbiguity_def split: sum.splits if_splits)
  from compareRootRulesA_searched[OF run] obtain fl where
    s: "searched opts ((\<lambda>(pathSetsA, pathSetsB). matchesT pathSetsA pathSetsB) `
          set (rootPairs pathTab)) fl emptyLog st" by blast
  then have fl: "flagged st = fl" and te: "testErrors st = []"
    by (simp_all add: searched_def emptyLog_def)
  from out have "flagged out = flagged st" "foundAmbiguity out = foundAmbiguity st" by auto
  moreover from out te have "testErrors out =
      (if \<not> foundAmbiguity st \<and> opt_useTestRules opts \<and> indexOf nontermSym ''ambig'' = 1
       then [nontermSym] else [])" by auto
  ultimately show ?thesis using s fl by auto
qed

text \<open>
  In a table built by path enumeration every path is filed under its own terminals, so
  the matching pairs of two root rules are their ambiguous pairs.
\<close>

lemma rootPairs_iff:
  "(pathSetsA, pathSetsB) \<in> set (rootPairs pathTab) \<longleftrightarrow>
     (\<exists>a b. a < b \<and> b < length pathTab \<and> pathSetsA = pathTab ! a \<and> pathSetsB = pathTab ! b)"
proof (induction pathTab)
  case Nil
  then show ?case by simp
next
  case (Cons x pathTab)
  show ?case
  proof
    assume "(pathSetsA, pathSetsB) \<in> set (rootPairs (x # pathTab))"
    then consider "pathSetsA = x" "pathSetsB \<in> set pathTab"
      | "(pathSetsA, pathSetsB) \<in> set (rootPairs pathTab)" by auto
    then show "\<exists>a b. a < b \<and> b < length (x # pathTab) \<and>
        pathSetsA = (x # pathTab) ! a \<and> pathSetsB = (x # pathTab) ! b"
    proof cases
      case 1
      from 1(2) obtain i where "i < length pathTab" "pathSetsB = pathTab ! i"
        by (auto simp: in_set_conv_nth)
      with 1(1) show ?thesis by (intro exI[of _ 0] exI[of _ "Suc i"]) simp
    next
      case 2
      with Cons.IH obtain a b where "a < b" "b < length pathTab"
        "pathSetsA = pathTab ! a" "pathSetsB = pathTab ! b" by blast
      then show ?thesis by (intro exI[of _ "Suc a"] exI[of _ "Suc b"]) simp
    qed
  next
    assume "\<exists>a b. a < b \<and> b < length (x # pathTab) \<and>
        pathSetsA = (x # pathTab) ! a \<and> pathSetsB = (x # pathTab) ! b"
    then obtain a b where ab: "a < b" "b < length (x # pathTab)"
      "pathSetsA = (x # pathTab) ! a" "pathSetsB = (x # pathTab) ! b" by blast
    from ab(1) obtain b' where b': "b = Suc b'" by (cases b) auto
    show "(pathSetsA, pathSetsB) \<in> set (rootPairs (x # pathTab))"
    proof (cases a)
      case 0
      with ab b' show ?thesis by auto
    next
      case (Suc a')
      with ab b' have "a' < b'" "b' < length pathTab"
        "pathSetsA = pathTab ! a'" "pathSetsB = pathTab ! b'" by auto
      with Cons.IH have "(pathSetsA, pathSetsB) \<in> set (rootPairs pathTab)" by blast
      then show ?thesis by simp
    qed
  qed
qed

lemma pathsOf_iff:
  "p \<in> set (pathsOf pathSets) \<longleftrightarrow> (\<exists>t paths. (t, paths) \<in> set pathSets \<and> p \<in> set paths)"
  by (force simp: pathsOf_def)

lemma wellFiled_terminals:
  "wellFiled pathSets \<Longrightarrow> (t, paths) \<in> set pathSets \<Longrightarrow> p \<in> set paths \<Longrightarrow> terminals p = t"
  by (auto simp: wellFiled_def list_all_iff)

lemma wellFiled_map_of:
  "wellFiled pathSets \<Longrightarrow> (t, paths) \<in> set pathSets \<Longrightarrow> map_of pathSets t = Some paths"
  by (simp add: wellFiled_def)

lemma pathsMatch_iff:
  "pathsMatch pathA pathB \<longleftrightarrow>
     nextSym pathA = nextSym pathB \<and> symsOf (nextSyms pathA) = symsOf (nextSyms pathB)"
  by (auto simp: pathsMatch_def listsEqual_symsOf)

lemma matchesT_wellFiled:
  assumes "wellFiled pathSetsA" "wellFiled pathSetsB"
  shows "matchesT pathSetsA pathSetsB =
     {(pathA, pathB). pathA \<in> set (pathsOf pathSetsA) \<and> pathB \<in> set (pathsOf pathSetsB) \<and>
        ambiguousPair pathA pathB}"
proof (intro set_eqI iffI; clarify)
  fix pathA pathB
  assume "(pathA, pathB) \<in> matchesT pathSetsA pathSetsB"
  then obtain t pathsA pathsB where
    h: "(t, pathsA) \<in> set pathSetsA" "map_of pathSetsB t = Some pathsB"
       "pathA \<in> set pathsA" "pathB \<in> set pathsB" "pathsMatch pathA pathB"
    by (auto simp: matchesT_def)
  from h(2) have inB: "(t, pathsB) \<in> set pathSetsB" by (rule map_of_SomeD)
  from wellFiled_terminals[OF assms(1) h(1,3)] wellFiled_terminals[OF assms(2) inB h(4)]
  have "terminals pathA = terminals pathB" by simp
  with h(5) have "ambiguousPair pathA pathB"
    by (simp add: ambiguousPair_def pathsMatch_iff)
  moreover from h(1,3) have "pathA \<in> set (pathsOf pathSetsA)" unfolding pathsOf_iff by blast
  moreover from inB h(4) have "pathB \<in> set (pathsOf pathSetsB)" unfolding pathsOf_iff by blast
  ultimately show "pathA \<in> set (pathsOf pathSetsA) \<and> pathB \<in> set (pathsOf pathSetsB) \<and>
      ambiguousPair pathA pathB" by blast
next
  fix pathA pathB
  assume a: "pathA \<in> set (pathsOf pathSetsA)" and b: "pathB \<in> set (pathsOf pathSetsB)"
    and amb: "ambiguousPair pathA pathB"
  from a obtain t pathsA where A: "(t, pathsA) \<in> set pathSetsA" "pathA \<in> set pathsA"
    unfolding pathsOf_iff by blast
  from b obtain t' pathsB where B: "(t', pathsB) \<in> set pathSetsB" "pathB \<in> set pathsB"
    unfolding pathsOf_iff by blast
  from wellFiled_terminals[OF assms(1) A] wellFiled_terminals[OF assms(2) B] amb
  have "t' = t" by (simp add: ambiguousPair_def)
  with wellFiled_map_of[OF assms(2) B(1)] have "map_of pathSetsB t = Some pathsB" by simp
  moreover from amb have "pathsMatch pathA pathB"
    by (simp add: ambiguousPair_def pathsMatch_iff)
  ultimately show "(pathA, pathB) \<in> matchesT pathSetsA pathSetsB"
    using A B(2) unfolding matchesT_def by blast
qed

text \<open>
  C1 (as amended). For a nonterminal symbol whose paths have been enumerated, when the
  search returns: every pair of paths the detector flags as ambiguous is drawn from two
  distinct root rules of the symbol and has identical terminals, equal
  \<^verbatim>\<open>nextSym\<close> and \<^verbatim>\<open>nextSyms\<close> lists equal symbol for symbol; for every two
  distinct root rules that have such a pair of paths, the detector flags at least one
  such pair of theirs; with \<^verbatim>\<open>findAll\<close> set and output on it flags every such pair;
  ambiguity is found exactly when a pair is flagged; and \<^verbatim>\<open>listsEqual\<close> returns true
  exactly when the two lists spell the same symbol sequence.
\<close>

theorem findAmbiguity_flags:
  assumes "grammar nontermSym = Some ruleArr"
    "expandTab grammar symsLimit (initPathTab ruleArr) = Inr pathTab"
    "findAmbiguity opts nontermSym pathTab = Inr out"
  shows "(\<forall>(pathA, pathB) \<in> set (flagged out).
            \<exists>a b. a < b \<and> b < length pathTab \<and>
              pathA \<in> set (pathsOf (pathTab ! a)) \<and> pathB \<in> set (pathsOf (pathTab ! b)) \<and>
              ambiguousPair pathA pathB)
       \<and> (\<forall>a b. a < b \<and> b < length pathTab \<and>
            (\<exists>pathA \<in> set (pathsOf (pathTab ! a)). \<exists>pathB \<in> set (pathsOf (pathTab ! b)).
               ambiguousPair pathA pathB) \<longrightarrow>
            (\<exists>(pathA, pathB) \<in> set (flagged out).
               pathA \<in> set (pathsOf (pathTab ! a)) \<and> pathB \<in> set (pathsOf (pathTab ! b)) \<and>
               ambiguousPair pathA pathB))
       \<and> (opt_findAll opts \<and> \<not> opt_noOutput opts \<longrightarrow>
            (\<forall>a b pathA pathB. a < b \<and> b < length pathTab \<and>
               pathA \<in> set (pathsOf (pathTab ! a)) \<and> pathB \<in> set (pathsOf (pathTab ! b)) \<and>
               ambiguousPair pathA pathB \<longrightarrow> (pathA, pathB) \<in> set (flagged out)))
       \<and> (foundAmbiguity out \<longleftrightarrow> flagged out \<noteq> [])
       \<and> (\<forall>x y. listsEqual x y \<longleftrightarrow> symsOf x = symsOf y)"
proof -
  let ?G = "(\<lambda>(pathSetsA, pathSetsB). matchesT pathSetsA pathSetsB) ` set (rootPairs pathTab)"
  let ?amb = "\<lambda>a b. {(pathA, pathB). pathA \<in> set (pathsOf (pathTab ! a)) \<and>
      pathB \<in> set (pathsOf (pathTab ! b)) \<and> ambiguousPair pathA pathB}"
  from pathTab_tabInv(1)[OF assms(2)] have filed: "\<And>i. i < length pathTab \<Longrightarrow> wellFiled (pathTab ! i)"
    by (simp add: list_all_length tabInv_def)
  have group: "matchesT (pathTab ! a) (pathTab ! b) = ?amb a b \<and>
      matchesT (pathTab ! a) (pathTab ! b) \<in> ?G"
    if "a < b" "b < length pathTab" for a b
  proof
    from that have "a < length pathTab" by simp
    from matchesT_wellFiled[OF filed[OF this] filed[OF that(2)]]
    show "matchesT (pathTab ! a) (pathTab ! b) = ?amb a b" .
    from that have "(pathTab ! a, pathTab ! b) \<in> set (rootPairs pathTab)"
      unfolding rootPairs_iff by blast
    then show "matchesT (pathTab ! a) (pathTab ! b) \<in> ?G" by force
  qed
  have G: "\<Union>?G = (\<Union>(a, b) \<in> {(a, b). a < b \<and> b < length pathTab}. ?amb a b)"
  proof (intro set_eqI iffI)
    fix x assume "x \<in> \<Union>?G"
    then obtain A B where "(A, B) \<in> set (rootPairs pathTab)" "x \<in> matchesT A B" by auto
    then obtain a b where ab: "a < b" "b < length pathTab" "x \<in> matchesT (pathTab ! a) (pathTab ! b)"
      unfolding rootPairs_iff by blast
    with group[OF ab(1,2)] have "x \<in> ?amb a b" by simp
    with ab(1,2) show "x \<in> (\<Union>(a, b) \<in> {(a, b). a < b \<and> b < length pathTab}. ?amb a b)" by blast
  next
    fix x assume "x \<in> (\<Union>(a, b) \<in> {(a, b). a < b \<and> b < length pathTab}. ?amb a b)"
    then obtain a b where ab: "a < b" "b < length pathTab" "x \<in> ?amb a b" by blast
    with group[OF ab(1,2)] show "x \<in> \<Union>?G" by blast
  qed
  from findAmbiguity_searched[OF assms(3)] obtain st where
    s: "searched opts ?G (flagged out) emptyLog st" and
    f: "foundAmbiguity out = foundAmbiguity st" by blast
  from s have sub: "set (flagged out) \<subseteq> \<Union>?G"
    unfolding searched_def by blast
  from s have each: "\<And>M. M \<in> ?G \<Longrightarrow> M \<noteq> {} \<Longrightarrow> set (flagged out) \<inter> M \<noteq> {}"
    unfolding searched_def by blast
  from s have all: "opt_findAll opts \<and> \<not> opt_noOutput opts \<Longrightarrow> set (flagged out) = \<Union>?G"
    unfolding searched_def by blast
  from s have found: "foundAmbiguity st = (flagged out \<noteq> [])"
    by (simp add: searched_def emptyLog_def)
  show ?thesis
  proof (intro conjI)
    show "\<forall>(pathA, pathB) \<in> set (flagged out).
            \<exists>a b. a < b \<and> b < length pathTab \<and>
              pathA \<in> set (pathsOf (pathTab ! a)) \<and> pathB \<in> set (pathsOf (pathTab ! b)) \<and>
              ambiguousPair pathA pathB"
      using sub unfolding G by blast
    show "\<forall>a b. a < b \<and> b < length pathTab \<and>
            (\<exists>pathA \<in> set (pathsOf (pathTab ! a)). \<exists>pathB \<in> set (pathsOf (pathTab ! b)).
               ambiguousPair pathA pathB) \<longrightarrow>
            (\<exists>(pathA, pathB) \<in> set (flagged out).
               pathA \<in> set (pathsOf (pathTab ! a)) \<and> pathB \<in> set (pathsOf (pathTab ! b)) \<and>
               ambiguousPair pathA pathB)"
    proof (intro allI impI)
      fix a b
      assume h: "a < b \<and> b < length pathTab \<and>
            (\<exists>pathA \<in> set (pathsOf (pathTab ! a)). \<exists>pathB \<in> set (pathsOf (pathTab ! b)).
               ambiguousPair pathA pathB)"
      then have ab: "a < b" "b < length pathTab" and ne: "?amb a b \<noteq> {}" by auto
      note g1 = group[OF ab, THEN conjunct1] and g2 = group[OF ab, THEN conjunct2]
      from g2 have M: "?amb a b \<in> ?G" unfolding g1 .
      from each[OF M ne] obtain x where "x \<in> set (flagged out)" "x \<in> ?amb a b" by blast
      then show "\<exists>(pathA, pathB) \<in> set (flagged out).
               pathA \<in> set (pathsOf (pathTab ! a)) \<and> pathB \<in> set (pathsOf (pathTab ! b)) \<and>
               ambiguousPair pathA pathB" by blast
    qed
    show "opt_findAll opts \<and> \<not> opt_noOutput opts \<longrightarrow>
            (\<forall>a b pathA pathB. a < b \<and> b < length pathTab \<and>
               pathA \<in> set (pathsOf (pathTab ! a)) \<and> pathB \<in> set (pathsOf (pathTab ! b)) \<and>
               ambiguousPair pathA pathB \<longrightarrow> (pathA, pathB) \<in> set (flagged out))"
    proof (intro impI allI)
      fix a b pathA pathB
      assume "opt_findAll opts \<and> \<not> opt_noOutput opts"
        and h: "a < b \<and> b < length pathTab \<and>
               pathA \<in> set (pathsOf (pathTab ! a)) \<and> pathB \<in> set (pathsOf (pathTab ! b)) \<and>
               ambiguousPair pathA pathB"
      from all[OF this(1)] have "set (flagged out) = \<Union>?G" .
      moreover from h have "(pathA, pathB) \<in> (\<Union>(a, b) \<in> {(a, b). a < b \<and> b < length pathTab}. ?amb a b)"
        by blast
      ultimately show "(pathA, pathB) \<in> set (flagged out)" unfolding G by simp
    qed
    show "foundAmbiguity out \<longleftrightarrow> flagged out \<noteq> []" using f found by simp
    show "\<forall>x y. listsEqual x y \<longleftrightarrow> symsOf x = symsOf y" by (simp add: listsEqual_symsOf)
  qed
qed

theorem findAmbiguity_flags_witness:
  "\<exists>ruleArr pathTab out.
     map_of twoWordsGrammar ''[S]'' = Some ruleArr
     \<and> expandTab (map_of twoWordsGrammar) 5 (initPathTab ruleArr) = Inr pathTab
     \<and> findAmbiguity exampleOpts ''[S]'' pathTab = Inr out
     \<and> foundAmbiguity out \<and> flagged out \<noteq> []
     \<and> list_all (\<lambda>(pathA, pathB). ambiguousPair pathA pathB) (flagged out)"
proof -
  let ?g = "map_of twoWordsGrammar"
  obtain ruleArr where g: "?g ''[S]'' = Some ruleArr"
    by (simp add: twoWordsGrammar_def)
  have "\<not> isl (expandTab ?g 5 (initPathTab (the (?g ''[S]''))))" by code_simp
  with g obtain pathTab where run: "expandTab ?g 5 (initPathTab ruleArr) = Inr pathTab"
    by (cases "expandTab ?g 5 (initPathTab ruleArr)") auto
  have "\<not> isl (findAmbiguity exampleOpts ''[S]''
      (projr (expandTab ?g 5 (initPathTab (the (?g ''[S]''))))))" by code_simp
  with g run obtain out where fa: "findAmbiguity exampleOpts ''[S]'' pathTab = Inr out"
    by (cases "findAmbiguity exampleOpts ''[S]'' pathTab") auto
  have "foundAmbiguity (projr (findAmbiguity exampleOpts ''[S]''
      (projr (expandTab ?g 5 (initPathTab (the (?g ''[S]'')))))))" by code_simp
  with g run fa have found: "foundAmbiguity out" by simp
  note flags = findAmbiguity_flags[OF g run fa]
  from flags found have "flagged out \<noteq> []" by blast
  moreover from flags
  have "list_all (\<lambda>(pathA, pathB). ambiguousPair pathA pathB) (flagged out)"
    unfolding list_all_iff by blast
  ultimately show ?thesis using g run fa found by blast
qed

text \<open>
  The claim as first stated fails for the pairs after the first one of a pair of root
  rules: with \<^verbatim>\<open>findAll\<close> unset, the paths \<^verbatim>\<open>[S] -> [A] -> y\<close> and
  \<^verbatim>\<open>[S] -> [B] -> y\<close> have identical terminals, next symbol and next symbols, and
  only the pair for the word \<^verbatim>\<open>x\<close> is flagged and printed.
\<close>

theorem findAmbiguity_flags_counterexample:
  "map_of twoWordsGrammar ''[S]'' = Some [plainRule [''[A]''] False, plainRule [''[B]''] False]
   \<and> \<not> isl (expandTab (map_of twoWordsGrammar) 5
         (initPathTab [plainRule [''[A]''] False, plainRule [''[B]''] False]))
   \<and> wordPath ''[A]'' ''y'' \<in> set (pathsOf (projr (expandTab (map_of twoWordsGrammar) 5
         (initPathTab [plainRule [''[A]''] False, plainRule [''[B]''] False])) ! 0))
   \<and> wordPath ''[B]'' ''y'' \<in> set (pathsOf (projr (expandTab (map_of twoWordsGrammar) 5
         (initPathTab [plainRule [''[A]''] False, plainRule [''[B]''] False])) ! 1))
   \<and> terminals (wordPath ''[A]'' ''y'') = terminals (wordPath ''[B]'' ''y'')
   \<and> nextSym (wordPath ''[A]'' ''y'') = nextSym (wordPath ''[B]'' ''y'')
   \<and> listsEqual (nextSyms (wordPath ''[A]'' ''y'')) (nextSyms (wordPath ''[B]'' ''y''))
   \<and> searchPaths (map_of twoWordsGrammar) exampleOpts ''[S]'' =
       Inr \<lparr>foundAmbiguity = True, flagged = [(wordPath ''[A]'' ''x'', wordPath ''[B]'' ''x'')],
            ambigPairs = [], printed = [(wordTree ''[A]'' ''x'', wordTree ''[B]'' ''x'')],
            testErrors = []\<rparr>
   \<and> (wordPath ''[A]'' ''y'', wordPath ''[B]'' ''y'')
        \<noteq> (wordPath ''[A]'' ''x'', wordPath ''[B]'' ''x'')"
  by code_simp

section \<open>Properties of the test-rule mode\<close>













text \<open>
  With output on, the search itself can end in an exception: trimming the trees of a
  finding, \<^verbatim>\<open>diffTrees\<close> can climb past the root of a tree and read a property of
  \<^verbatim>\<open>undefined\<close>. With the rules \<^verbatim>\<open>[S] -> 'x' | [T]\<close> and \<^verbatim>\<open>[T] -> [S]\<close> the finding
  for \<^verbatim>\<open>[S]\<close> ends the run before the symbols after it are searched; without output
  the same run returns.
\<close>

lemma diffTrees_exception_example:
  "searchPaths (map_of loopGrammar) exampleOpts ''[S]'' = Inl TypeError
   \<and> ambiguityCheck (\<lambda>opts. False) loopGrammar [] testOpts = Inl TypeError
   \<and> \<not> isl (ambiguityCheck (\<lambda>opts. False) loopGrammar []
         (testOpts\<lparr>opt_noOutput := True\<rparr>))"
  by code_simp

end
